theory Spec2Isabelle
  imports Complex_Main "HOL-Library.Word" "HOL-Library.AList"
begin

section \<open>The Prometheus bucket-summary reporter\<close>

text \<open>
  The source is \<^verbatim>\<open>prometheus/bucket_summary.go\<close>.
  Go strings are byte sequences: they are modelled as \<open>string\<close> (a list of 8-bit
  characters), \<open>len\<close> as \<open>length\<close> and \<open>s[i]\<close> as a byte. \<open>int64\<close> is \<open>64 word\<close>:
  \<open>+\<close> wraps around as Go's does, and comparisons read the word with \<open>sint\<close>.
  A Go map is an association list with distinct keys, kept by \<open>AList.update\<close>;
  its iteration order, which Go leaves unspecified, is the order of the list.
\<close>

type_synonym int64 = "64 word"

type_synonym 'v gomap = "(string \<times> 'v) list"

subsection \<open>Bytes and the functions of package strings\<close>

definition byte :: "char \<Rightarrow> nat" where
  "byte c = of_char c"

text \<open>\<open>isDigit\<close> and \<open>isLetter\<close> of the source: comparisons of one byte.\<close>

definition isDigit :: "char \<Rightarrow> bool" where
  "isDigit c = (byte CHR ''0'' \<le> byte c \<and> byte c \<le> byte CHR ''9'')"

definition isLetter :: "char \<Rightarrow> bool" where
  "isLetter c = ((byte CHR ''A'' \<le> byte c \<and> byte c \<le> byte CHR ''Z'')
               \<or> (byte CHR ''a'' \<le> byte c \<and> byte c \<le> byte CHR ''z''))"

text \<open>\<open>strings.HasPrefix s p\<close>.\<close>

fun HasPrefix :: "string \<Rightarrow> string \<Rightarrow> bool" where
  "HasPrefix s [] = True"
| "HasPrefix [] (p # ps) = False"
| "HasPrefix (c # cs) (p # ps) = (c = p \<and> HasPrefix cs ps)"

text \<open>\<open>strings.Contains s sub\<close>: \<open>sub\<close> occurs in \<open>s\<close> at some offset.\<close>

fun Contains :: "string \<Rightarrow> string \<Rightarrow> bool" where
  "Contains [] sub = (sub = [])"
| "Contains (c # cs) sub = (HasPrefix (c # cs) sub \<or> Contains cs sub)"

text \<open>
  \<open>strings.ReplaceAll cur "__" "_"\<close>: the non-overlapping occurrences of two
  underscores, found from the left, each become one underscore.
\<close>

fun ReplaceAll_uu :: "string \<Rightarrow> string" where
  "ReplaceAll_uu (a # b # cs) =
     (if a = CHR ''_'' \<and> b = CHR ''_'' then CHR ''_'' # ReplaceAll_uu cs
      else a # ReplaceAll_uu (b # cs))"
| "ReplaceAll_uu cs = cs"

subsection \<open>normalizeRange\<close>

text \<open>
  The first loop of \<open>normalizeRange\<close>: every byte is written, followed by an
  underscore when it is a digit and the next byte is a letter.
\<close>

fun insertUnderscores :: "string \<Rightarrow> string" where
  "insertUnderscores (a # b # cs) =
     (if isDigit a \<and> isLetter b then a # CHR ''_'' # insertUnderscores (b # cs)
      else a # insertUnderscores (b # cs))"
| "insertUnderscores cs = cs"

text \<open>
  The second loop: \<open>for strings.Contains(cur, "__") { cur = strings.ReplaceAll(cur, "__", "_") }\<close>.
\<close>

lemma ReplaceAll_uu_length_le: "length (ReplaceAll_uu s) \<le> length s"
  by (induction s rule: ReplaceAll_uu.induct) auto

lemma ReplaceAll_uu_shorter:
  "Contains s ''__'' \<Longrightarrow> length (ReplaceAll_uu s) < length s"
proof (induction s rule: ReplaceAll_uu.induct)
  case (1 a b cs)
  show ?case
  proof (cases "a = CHR ''_'' \<and> b = CHR ''_''")
    case True
    have "length (ReplaceAll_uu cs) \<le> length cs" by (rule ReplaceAll_uu_length_le)
    with True show ?thesis by simp
  next
    case False
    with "1.prems" have "Contains (b # cs) ''__''" by auto
    with False "1.IH"(2) have "length (ReplaceAll_uu (b # cs)) < length (b # cs)" by blast
    with False show ?thesis by auto
  qed
qed simp_all

function collapseUnderscores :: "string \<Rightarrow> string" where
  "collapseUnderscores cur =
     (if Contains cur ''__'' then collapseUnderscores (ReplaceAll_uu cur) else cur)"
  by pat_completeness auto
termination
  by (relation "measure length") (auto simp: ReplaceAll_uu_shorter)

declare collapseUnderscores.simps [simp del]

definition normalizeRange :: "string \<Rightarrow> string" where
  "normalizeRange r =
     (if r = [] then r else collapseUnderscores (insertUnderscores r))"

subsection \<open>Whitespace: strings.TrimSpace and strings.Fields\<close>

text \<open>
  Both functions test runes with \<open>unicode.IsSpace\<close>. On bytes, a white-space rune
  is one of the UTF-8 sequences below (tab, line feed, vertical tab, form feed,
  carriage return, space, U+0085, U+00A0, U+1680, U+2000 to U+200A, U+2028,
  U+2029, U+202F, U+205F, U+3000). Each starts with a byte that is not a UTF-8
  continuation byte, so an occurrence in the bytes is a rune of the decoded string,
  also where the string is not valid UTF-8.
\<close>

definition spaceRunes :: "string list" where
  "spaceRunes =
     [[CHR 0x09], [CHR 0x0A], [CHR 0x0B], [CHR 0x0C], [CHR 0x0D], [CHR 0x20],
      [CHR 0xC2, CHR 0x85], [CHR 0xC2, CHR 0xA0], [CHR 0xE1, CHR 0x9A, CHR 0x80],
      [CHR 0xE2, CHR 0x80, CHR 0x80], [CHR 0xE2, CHR 0x80, CHR 0x81],
      [CHR 0xE2, CHR 0x80, CHR 0x82], [CHR 0xE2, CHR 0x80, CHR 0x83],
      [CHR 0xE2, CHR 0x80, CHR 0x84], [CHR 0xE2, CHR 0x80, CHR 0x85],
      [CHR 0xE2, CHR 0x80, CHR 0x86], [CHR 0xE2, CHR 0x80, CHR 0x87],
      [CHR 0xE2, CHR 0x80, CHR 0x88], [CHR 0xE2, CHR 0x80, CHR 0x89],
      [CHR 0xE2, CHR 0x80, CHR 0x8A], [CHR 0xE2, CHR 0x80, CHR 0xA8],
      [CHR 0xE2, CHR 0x80, CHR 0xA9], [CHR 0xE2, CHR 0x80, CHR 0xAF],
      [CHR 0xE2, CHR 0x81, CHR 0x9F], [CHR 0xE3, CHR 0x80, CHR 0x80]]"

text \<open>The number of bytes of the white-space rune at the front of \<open>s\<close>, 0 when there is none.\<close>

definition spaceLen :: "string \<Rightarrow> nat" where
  "spaceLen s = (case List.find (HasPrefix s) spaceRunes of None \<Rightarrow> 0 | Some q \<Rightarrow> length q)"

text \<open>The same at the end of \<open>s\<close>.\<close>

definition spaceLenEnd :: "string \<Rightarrow> nat" where
  "spaceLenEnd s =
     (case List.find (\<lambda>q. HasPrefix (rev s) (rev q)) spaceRunes of None \<Rightarrow> 0 | Some q \<Rightarrow> length q)"

lemma HasPrefix_Nil: "HasPrefix [] q = (q = [])"
  by (cases q) simp_all

lemma find_HasPrefix_Nil: "[] \<notin> set qs \<Longrightarrow> List.find (HasPrefix []) qs = None"
  by (induction qs) (auto simp: HasPrefix_Nil)

lemma Nil_notin_spaceRunes: "[] \<notin> set spaceRunes"
  by (simp add: spaceRunes_def)

lemma spaceLen_Nil: "spaceLen [] = 0"
  by (simp add: spaceLen_def find_HasPrefix_Nil [OF Nil_notin_spaceRunes])

lemma spaceLenEnd_Nil: "spaceLenEnd [] = 0"
proof -
  have "List.find (\<lambda>q. HasPrefix [] (rev q)) qs = None" if "[] \<notin> set qs" for qs
    using that by (induction qs) (auto simp: HasPrefix_Nil)
  then show ?thesis
    by (simp add: spaceLenEnd_def Nil_notin_spaceRunes)
qed

function trimLeft :: "string \<Rightarrow> string" where
  "trimLeft s = (if spaceLen s = 0 then s else trimLeft (drop (spaceLen s) s))"
  by pat_completeness auto
termination
proof (relation "measure length")
  show "wf (measure length)" by simp
next
  fix s :: string
  assume "spaceLen s \<noteq> 0"
  then have "s \<noteq> []" using spaceLen_Nil by auto
  with \<open>spaceLen s \<noteq> 0\<close> show "(drop (spaceLen s) s, s) \<in> measure length" by simp
qed

function trimRight :: "string \<Rightarrow> string" where
  "trimRight s =
     (if spaceLenEnd s = 0 then s else trimRight (take (length s - spaceLenEnd s) s))"
  by pat_completeness auto
termination
proof (relation "measure length")
  show "wf (measure length)" by simp
next
  fix s :: string
  assume "spaceLenEnd s \<noteq> 0"
  then have "s \<noteq> []" using spaceLenEnd_Nil by auto
  with \<open>spaceLenEnd s \<noteq> 0\<close>
  show "(take (length s - spaceLenEnd s) s, s) \<in> measure length" by simp
qed

declare trimLeft.simps [simp del] trimRight.simps [simp del]

text \<open>\<open>strings.TrimSpace\<close>: leading, then trailing white space is cut.\<close>

definition TrimSpace :: "string \<Rightarrow> string" where
  "TrimSpace s = trimRight (trimLeft s)"

text \<open>The bytes before the next white-space rune, and the rest.\<close>

fun fieldEnd :: "string \<Rightarrow> string \<times> string" where
  "fieldEnd [] = ([], [])"
| "fieldEnd (c # cs) =
     (if spaceLen (c # cs) \<noteq> 0 then ([], c # cs)
      else (case fieldEnd cs of (f, r) \<Rightarrow> (c # f, r)))"

lemma fieldEnd_length: "length (snd (fieldEnd s)) \<le> length s"
  by (induction s) (auto split: prod.splits)

lemma fieldEnd_shorter:
  "s \<noteq> [] \<Longrightarrow> spaceLen s = 0 \<Longrightarrow> length (snd (fieldEnd s)) < length s"
proof (cases s)
  case (Cons c cs)
  assume "spaceLen s = 0"
  with Cons have "snd (fieldEnd s) = snd (fieldEnd cs)"
    by (simp split: prod.splits)
  with Cons show ?thesis
    using fieldEnd_length [of cs] by simp
qed simp

lemma trimLeft_length: "length (trimLeft s) \<le> length s"
proof (induction s rule: trimLeft.induct)
  case (1 s)
  show ?case
  proof (cases "spaceLen s = 0")
    case True
    then show ?thesis by (subst trimLeft.simps) simp
  next
    case False
    with 1 have "length (trimLeft (drop (spaceLen s) s)) \<le> length (drop (spaceLen s) s)"
      by blast
    with False show ?thesis by (subst trimLeft.simps) simp
  qed
qed

lemma spaceLen_trimLeft: "spaceLen (trimLeft s) = 0"
proof (induction s rule: trimLeft.induct)
  case (1 s)
  then show ?case by (subst trimLeft.simps) auto
qed

text \<open>\<open>strings.Fields\<close>: the maximal runs of bytes between white-space runes.\<close>

function Fields :: "string \<Rightarrow> string list" where
  "Fields s =
     (let t = trimLeft s in
      if t = [] then [] else fst (fieldEnd t) # Fields (snd (fieldEnd t)))"
  by pat_completeness auto
termination
proof (relation "measure length")
  show "wf (measure length)" by simp
next
  fix s t :: string
  assume t: "t = trimLeft s" and "t \<noteq> []"
  then have "length (snd (fieldEnd t)) < length t"
    by (simp add: fieldEnd_shorter spaceLen_trimLeft)
  also have "length t \<le> length s" by (simp add: t trimLeft_length)
  finally show "(snd (fieldEnd t), s) \<in> measure length" by simp
qed

declare Fields.simps [simp del]

subsection \<open>Label extraction\<close>

text \<open>
  \<open>regexp.MustCompile(`key="([^"]+)"`).FindStringSubmatch(line)\<close>: the leftmost offset
  at which \<open>key="\<close> is followed by at least one byte other than a double quote and then
  by a double quote; the submatch is the run between the quotes. \<open>matchLabelAt\<close> tries
  one offset, \<open>FindLabel\<close> the offsets from the left.
\<close>

definition matchLabelAt :: "string \<Rightarrow> string \<Rightarrow> string option" where
  "matchLabelAt key s =
     (if HasPrefix s (key @ [CHR ''='', CHR 0x22]) then
        (let rest = drop (length key + 2) s;
             v = takeWhile (\<lambda>c. c \<noteq> CHR 0x22) rest;
             after = dropWhile (\<lambda>c. c \<noteq> CHR 0x22) rest
         in if v \<noteq> [] \<and> after \<noteq> [] then Some v else None)
      else None)"

fun FindLabel :: "string \<Rightarrow> string \<Rightarrow> string option" where
  "FindLabel key [] = None"
| "FindLabel key (c # cs) =
     (case matchLabelAt key (c # cs) of Some v \<Rightarrow> Some v | None \<Rightarrow> FindLabel key cs)"

definition extractBucketName :: "string \<Rightarrow> string" where
  "extractBucketName line = (case FindLabel ''bucket'' line of Some v \<Rightarrow> v | None \<Rightarrow> [])"

definition extractServerName :: "string \<Rightarrow> string" where
  "extractServerName line = (case FindLabel ''server'' line of Some v \<Rightarrow> v | None \<Rightarrow> [])"

definition extractRange :: "string \<Rightarrow> string" where
  "extractRange line = (case FindLabel ''range'' line of Some v \<Rightarrow> v | None \<Rightarrow> [])"

subsection \<open>Numbers\<close>

text \<open>
  The three places where the source computes with \<open>float64\<close> are parameters of the
  model:
  \<^item> \<open>ParseFloat_int64 s\<close> is \<open>strconv.ParseFloat(s, 64)\<close> followed by the conversion
    \<open>int64(valueF)\<close>, \<open>None\<close> where \<open>ParseFloat\<close> returns an error;
  \<^item> \<open>Sprintf_1f a b\<close> is \<open>fmt.Sprintf("%.1f", float64(a)/float64(b))\<close>;
  \<^item> \<open>pct_ge a b c\<close> is \<open>float64(a) / float64(b) * 100 >= c\<close>.
  A theorem holds for all of them unless it says which one it takes. The third has a model
  of its own, \<open>float64_pct_ge\<close> below.
\<close>

record go_float =
  ParseFloat_int64 :: "string \<Rightarrow> int64 option"
  Sprintf_1f :: "int64 \<Rightarrow> int64 \<Rightarrow> string"
  pct_ge :: "int64 \<Rightarrow> int64 \<Rightarrow> nat \<Rightarrow> bool"

subsection \<open>The percentage test in float64\<close>

text \<open>
  The conversion of an integer to \<open>float64\<close>, the division and the multiplication of
  IEEE 754 binary64 each give the exact result rounded to 53 significant bits, to the
  nearest value and to the even one of two nearest. The values of
  \<open>float64(a) / float64(b) * 100\<close> for \<open>int64\<close> operands and \<open>b \<noteq> 0\<close> lie between
  \<open>2 ^ -63\<close> and \<open>2 ^ 70\<close> in size, or are zero: no overflow, no subnormal number. So
  the model computes with rationals and rounds after each operation.
\<close>

text \<open>Rounding to the nearest integer, a tie to the even one.\<close>

definition roundToEven :: "rat \<Rightarrow> int" where
  "roundToEven t =
     (let f = \<lfloor>t\<rfloor>; d = t - of_int f in
      if d < 1 / 2 then f else if 1 / 2 < d then f + 1 else if even f then f else f + 1)"

text \<open>
  The binary exponent of a positive rational \<open>x\<close>: the \<open>e\<close> with \<open>2 ^ e \<le> x < 2 ^ (e + 1)\<close>,
  found by halving a number from 1 up and doubling a number below 1.
\<close>

function normUp :: "rat \<Rightarrow> int \<Rightarrow> int" where
  "normUp x e = (if x < 2 then e else normUp (x / 2) (e + 1))"
  by pat_completeness auto
termination
proof (relation "measure (\<lambda>(x, e). nat \<lfloor>x\<rfloor>)")
  show "wf (measure (\<lambda>(x, e). nat \<lfloor>x\<rfloor>))" by simp
next
  fix x :: rat and e :: int
  assume "\<not> x < 2"
  then have "x / 2 \<le> x - 1" by simp
  then have "\<lfloor>x / 2\<rfloor> \<le> \<lfloor>x - 1\<rfloor>" by (rule floor_mono)
  moreover have "2 \<le> \<lfloor>x\<rfloor>" using \<open>\<not> x < 2\<close> by (simp add: le_floor_iff)
  ultimately show "((x / 2, e + 1), (x, e)) \<in> measure (\<lambda>(x, e). nat \<lfloor>x\<rfloor>)"
    by simp
qed

function normDown :: "rat \<Rightarrow> int \<Rightarrow> int" where
  "normDown x e = (if 1 \<le> x \<or> x \<le> 0 then e else normDown (2 * x) (e - 1))"
  by pat_completeness auto
termination
proof (relation "measure (\<lambda>(x, e). nat \<lfloor>1 / x\<rfloor>)")
  show "wf (measure (\<lambda>(x, e). nat \<lfloor>1 / x\<rfloor>))" by simp
next
  fix x :: rat and e :: int
  assume a: "\<not> (1 \<le> x \<or> x \<le> 0)"
  then have x: "0 < x" "x < 1" by auto
  define y where "y = 1 / x"
  have y: "1 < y" using x by (simp add: y_def)
  have h: "1 / (2 * x) = y / 2" by (simp add: y_def)
  have "\<lfloor>y / 2\<rfloor> < \<lfloor>y\<rfloor>"
  proof (cases "y < 2")
    case True
    then have "\<lfloor>y / 2\<rfloor> = 0" using y by (simp add: floor_eq_iff)
    moreover have "1 \<le> \<lfloor>y\<rfloor>" using y by (simp add: le_floor_iff)
    ultimately show ?thesis by simp
  next
    case False
    then have "y / 2 \<le> y - 1" by simp
    then have "\<lfloor>y / 2\<rfloor> \<le> \<lfloor>y - 1\<rfloor>" by (rule floor_mono)
    then show ?thesis by simp
  qed
  moreover have "0 < \<lfloor>y\<rfloor>" using y by (simp add: less_floor_iff)
  ultimately show "((2 * x, e - 1), (x, e)) \<in> measure (\<lambda>(x, e). nat \<lfloor>1 / x\<rfloor>)"
    by (simp add: h y_def [symmetric])
qed

declare normUp.simps [simp del] normDown.simps [simp del]

definition binaryExponent :: "rat \<Rightarrow> int" where
  "binaryExponent x = (if 1 \<le> x then normUp x 0 else normDown x 0)"

text \<open>
  A rational rounded to \<open>float64\<close>: zero stays zero; otherwise the size is rounded to a
  multiple of the unit in the last of 53 places, and the sign is kept.
\<close>

definition float64_round :: "rat \<Rightarrow> rat" where
  "float64_round x =
     (if x = 0 then 0
      else (let a = \<bar>x\<bar>; ulp = 2 powi (binaryExponent a - 52)
            in sgn x * (of_int (roundToEven (a / ulp)) * ulp)))"

text \<open>
  \<open>float64(a) / float64(b) * 100 >= c\<close>. A zero \<open>b\<close> gives an infinity or a NaN in Go,
  and the comparison holds of the positive infinity alone; \<open>getSizeStatus\<close> does not
  reach that case.
\<close>

definition float64_pct_ge :: "int64 \<Rightarrow> int64 \<Rightarrow> nat \<Rightarrow> bool" where
  "float64_pct_ge a b c =
     (if b = 0 then 0 <s a
      else of_nat c \<le>
             float64_round
               (float64_round
                  (float64_round (of_int (sint a)) / float64_round (of_int (sint b))) * 100))"

subsection \<open>Integers in decimal\<close>

text \<open>The value of a string of decimal digits.\<close>

definition decimal :: "string \<Rightarrow> int" where
  "decimal ds = foldl (\<lambda>n c. n * 10 + (int (byte c) - int (byte CHR ''0''))) 0 ds"

text \<open>
  \<open>strconv.ParseInt(s, 10, 64)\<close>, \<open>None\<close> where it returns an error: the empty string,
  a string that is not an optional sign followed by one or more decimal digits
  (syntax error), and a value outside \<open>int64\<close> (range error).
\<close>

definition ParseInt :: "string \<Rightarrow> int64 option" where
  "ParseInt s =
     (case s of
        [] \<Rightarrow> None
      | c # cs \<Rightarrow>
          (let neg = (c = CHR ''-'');
               ds = (if c = CHR ''+'' \<or> c = CHR ''-'' then cs else s)
           in if ds = [] \<or> \<not> list_all isDigit ds then None
              else (let un = decimal ds
                    in if \<not> neg \<and> un \<ge> 2 ^ 63 then None
                       else if neg \<and> un > 2 ^ 63 then None
                       else Some (if neg then - word_of_int un else word_of_int un))))"

definition extractValue :: "go_float \<Rightarrow> string \<Rightarrow> int64" where
  "extractValue fl line =
     (let parts = Fields line in
      if parts \<noteq> [] then
        (let valueStr = last parts in
         case ParseInt valueStr of
           Some v \<Rightarrow> v
         | None \<Rightarrow> (case ParseFloat_int64 fl valueStr of Some v \<Rightarrow> v | None \<Rightarrow> 0))
      else 0)"

text \<open>The verb \<open>%d\<close> of \<open>fmt\<close> on an integer.\<close>

fun showNat :: "nat \<Rightarrow> string" where
  "showNat n =
     (if n < 10 then [char_of (byte CHR ''0'' + n)]
      else showNat (n div 10) @ [char_of (byte CHR ''0'' + n mod 10)])"

declare showNat.simps [simp del]

definition showInt :: "int \<Rightarrow> string" where
  "showInt i = (if i < 0 then CHR ''-'' # showNat (nat (- i)) else showNat (nat i))"

text \<open>
  The loop of \<open>formatBytes\<close>: \<open>for n := bytes / unit; n >= unit; n /= unit { div *= unit; exp++ }\<close>.
  \<open>n\<close> is not negative here, so Go's truncating division is \<open>div\<close>; \<open>expn\<close> is the
  variable \<open>exp\<close> of the source.
\<close>

function formatBytesLoop :: "int \<Rightarrow> int64 \<Rightarrow> nat \<Rightarrow> int64 \<times> nat" where
  "formatBytesLoop n dv expn =
     (if n \<ge> 1024 then formatBytesLoop (n div 1024) (dv * 1024) (expn + 1) else (dv, expn))"
  by pat_completeness auto
termination
  by (relation "measure (\<lambda>(n, dv, expn). nat n)") auto

declare formatBytesLoop.simps [simp del]

text \<open>
  \<open>formatBytes\<close>. The index \<open>exp\<close> into \<open>"KMGTPE"\<close> is at most 5, since \<open>bytes < 2 ^ 63\<close>.
\<close>

definition formatBytes :: "go_float \<Rightarrow> int64 \<Rightarrow> string" where
  "formatBytes fl bytes =
     (if sint bytes < 1024 then showInt (sint bytes) @ '' B''
      else (case formatBytesLoop (sint bytes div 1024) 1024 0 of
              (dv, expn) \<Rightarrow> Sprintf_1f fl bytes dv @ '' '' @ [''KMGTPE'' ! expn] @ ''B''))"

subsection \<open>The aggregate state\<close>

record BucketSummary =
  Name :: string
  ObjectCount :: int64
  SizeBytes :: int64
  SizeHuman :: string
  Servers :: "string list"
  VersionDistribution :: "int64 gomap"
  SizeDistribution :: "int64 gomap"

record MetricParser =
  buckets :: "BucketSummary gomap"
  ClusterObjects :: int64
  ClusterBytes :: int64
  ClusterVersionDist :: "int64 gomap"
  ClusterSizeDist :: "int64 gomap"

record DisplayOptions =
  ShowVersions :: bool
  ShowSizes :: bool
  Cluster :: bool

definition NewMetricParser :: MetricParser where
  "NewMetricParser =
     \<lparr>buckets = [], ClusterObjects = 0, ClusterBytes = 0,
      ClusterVersionDist = [], ClusterSizeDist = []\<rparr>"

text \<open>Reading a Go map of integers: a missing key reads as zero.\<close>

definition getCount :: "int64 gomap \<Rightarrow> string \<Rightarrow> int64" where
  "getCount m k = (case map_of m k of None \<Rightarrow> 0 | Some v \<Rightarrow> v)"

text \<open>\<open>m[k] += v\<close>.\<close>

definition addCount :: "int64 gomap \<Rightarrow> string \<Rightarrow> int64 \<Rightarrow> int64 gomap" where
  "addCount m k v = AList.update k (getCount m k + v) m"

definition addServer :: "BucketSummary \<Rightarrow> string \<Rightarrow> BucketSummary" where
  "addServer bs server =
     (if server \<in> set (Servers bs) then bs else bs\<lparr>Servers := Servers bs @ [server]\<rparr>)"

subsection \<open>ParseFile\<close>

text \<open>A line is used when, trimmed, it is neither a comment nor empty.\<close>

definition skipped :: "string \<Rightarrow> bool" where
  "skipped line = (HasPrefix line ''#'' \<or> line = [])"

text \<open>The branch of the loop body for a line without a bucket label.\<close>

definition parseClusterLine :: "go_float \<Rightarrow> string \<Rightarrow> MetricParser \<Rightarrow> MetricParser" where
  "parseClusterLine fl line mp =
     (if Contains line ''minio_cluster_usage_object_total'' then
        mp\<lparr>ClusterObjects := ClusterObjects mp + extractValue fl line\<rparr>
      else if Contains line ''minio_cluster_usage_total_bytes'' then
        mp\<lparr>ClusterBytes := ClusterBytes mp + extractValue fl line\<rparr>
      else if Contains line ''minio_cluster_objects_version_distribution'' then
        (let rangeValue = extractRange line in
         if rangeValue \<noteq> [] then
           mp\<lparr>ClusterVersionDist :=
                addCount (ClusterVersionDist mp) (normalizeRange rangeValue) (extractValue fl line)\<rparr>
         else mp)
      else if Contains line ''minio_cluster_objects_size_distribution'' then
        (let rangeValue = extractRange line in
         if rangeValue \<noteq> [] then
           mp\<lparr>ClusterSizeDist :=
                addCount (ClusterSizeDist mp) (normalizeRange rangeValue) (extractValue fl line)\<rparr>
         else mp)
      else mp)"

definition newBucket :: "string \<Rightarrow> BucketSummary" where
  "newBucket bucketName =
     \<lparr>Name = bucketName, ObjectCount = 0, SizeBytes = 0, SizeHuman = [], Servers = [],
      VersionDistribution = [], SizeDistribution = []\<rparr>"

text \<open>The four metric families of a line with a bucket label; the tests are not exclusive.\<close>

definition parseObjectTotal :: "go_float \<Rightarrow> string \<Rightarrow> BucketSummary \<Rightarrow> BucketSummary" where
  "parseObjectTotal fl line bucket =
     (if Contains line ''minio_bucket_usage_object_total'' then
        bucket\<lparr>ObjectCount := ObjectCount bucket + extractValue fl line\<rparr>
      else bucket)"

definition parseTotalBytes :: "go_float \<Rightarrow> string \<Rightarrow> BucketSummary \<Rightarrow> BucketSummary" where
  "parseTotalBytes fl line bucket =
     (if Contains line ''minio_bucket_usage_total_bytes'' then
        (let sz = SizeBytes bucket + extractValue fl line in
         bucket\<lparr>SizeBytes := sz, SizeHuman := formatBytes fl sz\<rparr>)
      else bucket)"

definition parseVersionDist :: "go_float \<Rightarrow> string \<Rightarrow> BucketSummary \<Rightarrow> BucketSummary" where
  "parseVersionDist fl line bucket =
     (if Contains line ''minio_bucket_objects_version_distribution'' then
        (let rangeValue = extractRange line in
         if rangeValue \<noteq> [] then
           bucket\<lparr>VersionDistribution :=
                   addCount (VersionDistribution bucket) (normalizeRange rangeValue)
                     (extractValue fl line)\<rparr>
         else bucket)
      else bucket)"

definition parseSizeDist :: "go_float \<Rightarrow> string \<Rightarrow> BucketSummary \<Rightarrow> BucketSummary" where
  "parseSizeDist fl line bucket =
     (if Contains line ''minio_bucket_objects_size_distribution'' then
        (let rangeValue = extractRange line in
         if rangeValue \<noteq> [] then
           bucket\<lparr>SizeDistribution :=
                   addCount (SizeDistribution bucket) (normalizeRange rangeValue)
                     (extractValue fl line)\<rparr>
         else bucket)
      else bucket)"

text \<open>
  The branch for a line with a bucket label: the bucket is created when the map has
  none of that name, the server label is recorded, then the families are tried.
\<close>

definition parseBucketLine ::
  "go_float \<Rightarrow> string \<Rightarrow> string \<Rightarrow> MetricParser \<Rightarrow> MetricParser" where
  "parseBucketLine fl bucketName line mp =
     (let serverName = extractServerName line;
          bucket = (case map_of (buckets mp) bucketName of
                      None \<Rightarrow> newBucket bucketName
                    | Some b \<Rightarrow> b)
      in mp\<lparr>buckets :=
             AList.update bucketName
               (parseSizeDist fl line (parseVersionDist fl line (parseTotalBytes fl line
                  (parseObjectTotal fl line (addServer bucket serverName)))))
               (buckets mp)\<rparr>)"

text \<open>The body of the loop \<open>for scanner.Scan()\<close>, on the text of one line.\<close>

definition parseLine :: "go_float \<Rightarrow> string \<Rightarrow> MetricParser \<Rightarrow> MetricParser" where
  "parseLine fl raw mp =
     (let line = TrimSpace raw in
      if skipped line then mp
      else (let bucketName = extractBucketName line in
            if bucketName = [] then parseClusterLine fl line mp
            else parseBucketLine fl bucketName line mp))"

text \<open>
  The file as \<open>ParseFile\<close> meets it: it cannot be opened, or the scanner yields lines
  and ends with or without an error. The lines read before an error are parsed.
\<close>

datatype metricsFile = CannotOpen | Scanned "string list" bool

datatype error = ErrOpen | ErrScan

definition ParseFile :: "go_float \<Rightarrow> metricsFile \<Rightarrow> MetricParser \<Rightarrow> error option \<times> MetricParser" where
  "ParseFile fl f mp =
     (case f of
        CannotOpen \<Rightarrow> (Some ErrOpen, mp)
      | Scanned lines failed \<Rightarrow>
          (if failed then Some ErrScan else None, fold (parseLine fl) lines mp))"

subsection \<open>The scanner\<close>

text \<open>
  \<open>bufio.NewScanner(file)\<close> splits the file with \<open>bufio.ScanLines\<close>: a token is the text
  up to the next line feed, or up to the end of the file when that text is not empty, with
  one trailing carriage return dropped. The buffer grows to \<open>MaxScanTokenSize\<close> bytes and
  holds the token with its line feed: when the buffer is full and has no line feed,
  \<open>Scan\<close> stops with \<open>ErrTooLong\<close>, which is the case of a line of 65536 bytes or more.
  \<open>Scan\<close> here gives all the tokens and whether the scanner stopped with that error; a
  read error of the file itself is not modelled.
\<close>

definition LF :: char where
  "LF = CHR 0x0A"

definition CR :: char where
  "CR = CHR 0x0D"

definition MaxScanTokenSize :: int where
  "MaxScanTokenSize = 64 * 1024"

definition dropCR :: "string \<Rightarrow> string" where
  "dropCR data = (if data \<noteq> [] \<and> last data = CR then butlast data else data)"

function Scan :: "string \<Rightarrow> string list \<times> bool" where
  "Scan data =
     (if data = [] then ([], False)
      else (let token = takeWhile (\<lambda>c. c \<noteq> LF) data;
                rest = drop 1 (dropWhile (\<lambda>c. c \<noteq> LF) data)
            in if MaxScanTokenSize \<le> int (length token) then ([], True)
               else (case Scan rest of (tokens, tooLong) \<Rightarrow> (dropCR token # tokens, tooLong))))"
  by pat_completeness auto
termination
proof (relation "measure length")
  show "wf (measure length)" by simp
next
  fix data :: string and token rest
  assume "data \<noteq> []" and "rest = drop 1 (dropWhile (\<lambda>c. c \<noteq> LF) data)"
  moreover have "length (dropWhile (\<lambda>c. c \<noteq> LF) data) \<le> length data"
    by (rule length_dropWhile_le)
  ultimately show "(rest, data) \<in> measure length"
    by (cases "dropWhile (\<lambda>c. c \<noteq> LF) data") (auto simp: neq_Nil_conv Suc_le_eq)
qed

declare Scan.simps [simp del]

text \<open>The file of a given content, opened and scanned.\<close>

definition scanFile :: "string \<Rightarrow> metricsFile" where
  "scanFile content = (case Scan content of (tokens, tooLong) \<Rightarrow> Scanned tokens tooLong)"

subsection \<open>Status derivation\<close>

definition getVersioningStatus :: "int64 gomap \<Rightarrow> string" where
  "getVersioningStatus versionDist =
     (if length versionDist = 0 then ''Unknown''
      else
        (let singleVersion = getCount versionDist ''SINGLE_VERSION'';
             unversioned = getCount versionDist ''UNVERSIONED'';
             totalVersioned =
               fold (\<lambda>(key, count) total.
                        if key \<noteq> ''UNVERSIONED'' \<and> key \<noteq> ''SINGLE_VERSION''
                        then total + count else total)
                    versionDist 0
         in if 0 <s unversioned \<and> singleVersion = 0 \<and> totalVersioned = 0 then ''Unversioned''
            else if 0 <s singleVersion \<and> totalVersioned = 0 then ''Single Version''
            else if 0 <s totalVersioned then ''Multi-Version''
            else ''Mixed''))"

definition getSizeStatus :: "go_float \<Rightarrow> int64 gomap \<Rightarrow> string" where
  "getSizeStatus fl sizeDist =
     (if length sizeDist = 0 then ''Unknown''
      else
        (let small = getCount sizeDist ''LESS_THAN_1024_B''
                   + getCount sizeDist ''BETWEEN_1024_B_AND_64_KB''
                   + getCount sizeDist ''BETWEEN_1024_B_AND_1_MB''
                   + getCount sizeDist ''BETWEEN_1024B_AND_1_MB''
                   + getCount sizeDist ''BETWEEN_64_KB_AND_256_KB''
                   + getCount sizeDist ''BETWEEN_256_KB_AND_512_KB''
                   + getCount sizeDist ''BETWEEN_512_KB_AND_1_MB'';
             medium = getCount sizeDist ''BETWEEN_1_MB_AND_10_MB''
                    + getCount sizeDist ''BETWEEN_10_MB_AND_64_MB'';
             large = getCount sizeDist ''BETWEEN_64_MB_AND_128_MB''
                   + getCount sizeDist ''BETWEEN_128_MB_AND_512_MB''
                   + getCount sizeDist ''GREATER_THAN_512_MB'';
             total = small + medium + large
         in if total = 0 then ''Empty''
            else if pct_ge fl small total 80 then ''Mostly Small''
            else if pct_ge fl medium total 60 then ''Mostly Medium''
            else if pct_ge fl large total 60 then ''Mostly Large''
            else ''Mixed Sizes''))"

subsection \<open>GetSummary and PrintSummaryTable\<close>

text \<open>
  \<open>sort.Slice(xs, lt)\<close> orders \<open>xs\<close> by \<open>lt\<close> and promises no order among equal
  elements. The model is an insertion sort, which keeps them in their order.
\<close>

fun insertBy :: "('a \<Rightarrow> 'a \<Rightarrow> bool) \<Rightarrow> 'a \<Rightarrow> 'a list \<Rightarrow> 'a list" where
  "insertBy lt x [] = [x]"
| "insertBy lt x (y # ys) = (if lt x y then x # y # ys else y # insertBy lt x ys)"

definition sort_Slice :: "('a \<Rightarrow> 'a \<Rightarrow> bool) \<Rightarrow> 'a list \<Rightarrow> 'a list" where
  "sort_Slice lt xs = foldl (\<lambda>done x. insertBy lt x done) [] xs"

text \<open>The comparison of both sorts: \<open>summaries[i].SizeBytes > summaries[j].SizeBytes\<close>.\<close>

definition largerSize :: "BucketSummary \<Rightarrow> BucketSummary \<Rightarrow> bool" where
  "largerSize a b = (SizeBytes b <s SizeBytes a)"

definition GetSummary :: "MetricParser \<Rightarrow> BucketSummary list" where
  "GetSummary mp = sort_Slice largerSize (map snd (buckets mp))"

definition hasClusterData :: "MetricParser \<Rightarrow> bool" where
  "hasClusterData mp =
     (0 <s ClusterObjects mp \<or> 0 <s ClusterBytes mp
      \<or> length (ClusterVersionDist mp) > 0 \<or> length (ClusterSizeDist mp) > 0)"

definition clusterSummary :: "go_float \<Rightarrow> MetricParser \<Rightarrow> BucketSummary" where
  "clusterSummary fl mp =
     \<lparr>Name = ''<cluster-aggregate>'', ObjectCount = ClusterObjects mp,
      SizeBytes = ClusterBytes mp, SizeHuman = formatBytes fl (ClusterBytes mp),
      Servers = [], VersionDistribution = ClusterVersionDist mp,
      SizeDistribution = ClusterSizeDist mp\<rparr>"

text \<open>
  The second block that \<open>PrintSummaryTable\<close> and \<open>PrintTopBuckets\<close> share: with
  \<open>--cluster\<close> and cluster data, the aggregate is appended unless a summary of that
  name is there, and the list is sorted again.
\<close>

definition withCluster ::
  "go_float \<Rightarrow> DisplayOptions \<Rightarrow> MetricParser \<Rightarrow> BucketSummary list \<Rightarrow> BucketSummary list" where
  "withCluster fl opts mp summaries =
     (if Cluster opts \<and> hasClusterData mp then
        (if list_ex (\<lambda>b. Name b = ''<cluster-aggregate>'') summaries then summaries
         else sort_Slice largerSize (summaries @ [clusterSummary fl mp]))
      else summaries)"

text \<open>What the table prints: a row for each summary, then the totals.\<close>

record tableRow =
  rowName :: string
  rowObjectCount :: int64
  rowSizeBytes :: int64
  rowSizeHuman :: string
  rowVersioning :: "string option"
  rowSizeDist :: "string option"

record summaryTable =
  clusterNotice :: bool
  header :: "string list"
  tableRows :: "tableRow list"
  totalBuckets :: nat
  totalObjects :: int64
  totalBytes :: int64
  totalHuman :: string

datatype printed = NoBucketDataFound | Table summaryTable

definition printHeader :: "DisplayOptions \<Rightarrow> string list" where
  "printHeader opts =
     (if ShowVersions opts \<and> ShowSizes opts then
        [''BUCKET NAME'', ''OBJECT COUNT'', ''SIZE (BYTES)'', ''SIZE (HUMAN)'', ''VERSIONING'', ''SIZE DIST'']
      else if ShowVersions opts then
        [''BUCKET NAME'', ''OBJECT COUNT'', ''SIZE (BYTES)'', ''SIZE (HUMAN)'', ''VERSIONING'']
      else if ShowSizes opts then
        [''BUCKET NAME'', ''OBJECT COUNT'', ''SIZE (BYTES)'', ''SIZE (HUMAN)'', ''SIZE DIST'']
      else
        [''BUCKET NAME'', ''OBJECT COUNT'', ''SIZE (BYTES)'', ''SIZE (HUMAN)''])"

definition printRow :: "go_float \<Rightarrow> DisplayOptions \<Rightarrow> BucketSummary \<Rightarrow> tableRow" where
  "printRow fl opts bucket =
     (let bucketName = (if length (Name bucket) > 40 then take 37 (Name bucket) @ ''...''
                        else Name bucket)
      in \<lparr>rowName = bucketName,
          rowObjectCount = ObjectCount bucket,
          rowSizeBytes = SizeBytes bucket,
          rowSizeHuman = SizeHuman bucket,
          rowVersioning = (if ShowVersions opts
                           then Some (getVersioningStatus (VersionDistribution bucket)) else None),
          rowSizeDist = (if ShowSizes opts
                         then Some (getSizeStatus fl (SizeDistribution bucket)) else None)\<rparr>)"

text \<open>
  The loop over the summaries: the row is printed, then \<open>totalObjects\<close> and
  \<open>totalBytes\<close> are increased.
\<close>

definition printRows ::
  "go_float \<Rightarrow> DisplayOptions \<Rightarrow> BucketSummary list \<Rightarrow> tableRow list \<times> int64 \<times> int64" where
  "printRows fl opts summaries =
     fold (\<lambda>bucket (out, sumObjects, sumBytes).
             (out @ [printRow fl opts bucket],
              sumObjects + ObjectCount bucket,
              sumBytes + SizeBytes bucket))
          summaries ([], 0, 0)"

definition printTable ::
  "go_float \<Rightarrow> DisplayOptions \<Rightarrow> bool \<Rightarrow> BucketSummary list \<Rightarrow> summaryTable" where
  "printTable fl opts notice summaries =
     (case printRows fl opts summaries of
        (out, sumObjects, sumBytes) \<Rightarrow>
          \<lparr>clusterNotice = notice, header = printHeader opts, tableRows = out,
           totalBuckets = length summaries, totalObjects = sumObjects,
           totalBytes = sumBytes, totalHuman = formatBytes fl sumBytes\<rparr>)"

definition PrintSummaryTable :: "go_float \<Rightarrow> DisplayOptions \<Rightarrow> MetricParser \<Rightarrow> printed" where
  "PrintSummaryTable fl opts mp =
     (let summaries = GetSummary mp in
      if length summaries = 0 then
        (if hasClusterData mp then
           Table (printTable fl opts True (withCluster fl opts mp [clusterSummary fl mp]))
         else NoBucketDataFound)
      else Table (printTable fl opts False (withCluster fl opts mp summaries)))"

subsection \<open>Inputs used in the examples\<close>

text \<open>A label \<open>key="v"\<close> of a metric line.\<close>

definition label :: "string \<Rightarrow> string \<Rightarrow> string" where
  "label key v = key @ [CHR ''='', CHR 0x22] @ v @ [CHR 0x22]"

text \<open>
  The \<open>float64\<close> operations of the examples. The percentage test is the model above. The
  other two are stand-ins that agree with Go on the examples: the only token parsed is
  \<open>5.67e+08\<close>, and a quotient of small non-negative numbers is printed with one decimal,
  rounded to nearest.
\<close>

definition exampleFloat :: go_float where
  "exampleFloat =
     \<lparr>ParseFloat_int64 = (\<lambda>s. if s = ''5.67e+08'' then Some 567000000 else None),
      Sprintf_1f = (\<lambda>a b. let q = (20 * sint a + sint b) div (2 * sint b)
                        in showInt (q div 10) @ ''.'' @ showNat (nat (q mod 10))),
      pct_ge = float64_pct_ge\<rparr>"

text \<open>Two servers report bucket \<open>logs\<close>; the last line belongs to no recognized family.\<close>

definition twoServers :: "string list" where
  "twoServers =
     [''# TYPE minio_bucket_usage_object_total gauge'',
      ''minio_bucket_usage_object_total{'' @ label ''bucket'' ''logs'' @ '','' @ label ''server'' ''s1'' @ ''} 5'',
      ''minio_bucket_usage_object_total{'' @ label ''bucket'' ''logs'' @ '','' @ label ''server'' ''s2'' @ ''} 7'',
      ''minio_bucket_usage_object_total{'' @ label ''bucket'' ''data'' @ '','' @ label ''server'' ''s1'' @ ''} 1'',
      ''minio_bucket_quota_total_bytes{'' @ label ''bucket'' ''logs'' @ ''} 9'']"

text \<open>Lines of a family that the program does not read, with and without a server label.\<close>

definition quotaLines :: "string list" where
  "quotaLines =
     [''minio_bucket_quota_total_bytes{'' @ label ''bucket'' ''logs'' @ '','' @ label ''server'' ''s3'' @ ''} 9'',
      ''minio_bucket_quota_total_bytes{'' @ label ''bucket'' ''logs'' @ ''} 9'',
      ''minio_bucket_quota_total_bytes{'' @ label ''bucket'' ''logs'' @ '','' @ label ''server'' ''s3'' @ ''} 11'']"

text \<open>
  Two buckets and cluster totals, printed with \<open>--cluster\<close>: the aggregate is a row
  between the buckets. The sizes are below 1024, where \<open>formatBytes\<close> uses no \<open>float64\<close>.
\<close>

definition withClusterRow :: "string list" where
  "withClusterRow =
     [''minio_bucket_usage_total_bytes{'' @ label ''bucket'' ''logs'' @ '','' @ label ''server'' ''s1'' @ ''} 100'',
      ''minio_bucket_usage_total_bytes{'' @ label ''bucket'' ''data'' @ '','' @ label ''server'' ''s1'' @ ''} 300'',
      ''minio_bucket_usage_object_total{'' @ label ''bucket'' ''logs'' @ '','' @ label ''server'' ''s1'' @ ''} 5'',
      ''minio_cluster_usage_total_bytes{'' @ label ''server'' ''s1'' @ ''} 200'',
      ''minio_cluster_usage_object_total{'' @ label ''server'' ''s1'' @ ''} 9'']"

definition forceCluster :: DisplayOptions where
  "forceCluster = \<lparr>ShowVersions = False, ShowSizes = False, Cluster = True\<rparr>"

definition withClusterTable :: summaryTable where
  "withClusterTable =
     \<lparr>clusterNotice = False,
      header = [''BUCKET NAME'', ''OBJECT COUNT'', ''SIZE (BYTES)'', ''SIZE (HUMAN)''],
      tableRows =
        [\<lparr>rowName = ''data'', rowObjectCount = 0, rowSizeBytes = 300, rowSizeHuman = ''300 B'',
          rowVersioning = None, rowSizeDist = None\<rparr>,
         \<lparr>rowName = ''<cluster-aggregate>'', rowObjectCount = 9, rowSizeBytes = 200,
          rowSizeHuman = ''200 B'', rowVersioning = None, rowSizeDist = None\<rparr>,
         \<lparr>rowName = ''logs'', rowObjectCount = 5, rowSizeBytes = 100, rowSizeHuman = ''100 B'',
          rowVersioning = None, rowSizeDist = None\<rparr>],
      totalBuckets = 3, totalObjects = 14, totalBytes = 600, totalHuman = ''600 B''\<rparr>"

text \<open>The input of \<open>TestParseClusterMetrics\<close>: cluster families only.\<close>

definition clusterOnly :: "string list" where
  "clusterOnly =
     [''# HELP minio_cluster_usage_object_total Total number of objects in a cluster'',
      ''# TYPE minio_cluster_usage_object_total gauge'',
      ''minio_cluster_usage_object_total{'' @ label ''server'' ''s1'' @ ''} 12345'',
      ''# HELP minio_cluster_usage_total_bytes Total cluster usage in bytes'',
      ''# TYPE minio_cluster_usage_total_bytes gauge'',
      ''minio_cluster_usage_total_bytes{'' @ label ''server'' ''s1'' @ ''} 5.67e+08'',
      ''# HELP minio_cluster_objects_size_distribution Distribution of object sizes across a cluster'',
      ''# TYPE minio_cluster_objects_size_distribution gauge'',
      ''minio_cluster_objects_size_distribution{'' @ label ''range'' ''BETWEEN_1024B_AND_1_MB''
         @ '','' @ label ''server'' ''s1'' @ ''} 100'',
      ''minio_cluster_objects_size_distribution{'' @ label ''range'' ''BETWEEN_1024_B_AND_64_KB''
         @ '','' @ label ''server'' ''s1'' @ ''} 200'',
      ''minio_cluster_objects_version_distribution{'' @ label ''range'' ''SINGLE_VERSION''
         @ '','' @ label ''server'' ''s1'' @ ''} 300'']"

text \<open>Cluster families only, both totals zero.\<close>

definition clusterZero :: "string list" where
  "clusterZero =
     [''# TYPE minio_cluster_usage_object_total gauge'',
      ''minio_cluster_usage_object_total{'' @ label ''server'' ''s1'' @ ''} 0'',
      ''minio_cluster_usage_total_bytes{'' @ label ''server'' ''s1'' @ ''} 0'']"

definition plainOptions :: DisplayOptions where
  "plainOptions = \<lparr>ShowVersions = False, ShowSizes = False, Cluster = False\<rparr>"

text \<open>
  Lines whose last token, \<open>n/a\<close>, is no number, with and without a bucket label, and two
  well-formed lines to stand around them.
\<close>

definition logsObjects :: string where
  "logsObjects = ''minio_bucket_usage_object_total{'' @ label ''bucket'' ''logs'' @ '','' @ label ''server'' ''s1'' @ ''} 5''"

definition logsBytes :: string where
  "logsBytes = ''minio_bucket_usage_total_bytes{'' @ label ''bucket'' ''logs'' @ '','' @ label ''server'' ''s1'' @ ''} 100''"


definition clusterBadValue :: string where
  "clusterBadValue = ''minio_cluster_usage_object_total{'' @ label ''server'' ''s1'' @ ''} n/a''"

text \<open>A line of bucket \<open>logs\<close>, from a second server, whose last token is no number.\<close>

definition logsBadValue :: string where
  "logsBadValue = ''minio_bucket_usage_object_total{'' @ label ''bucket'' ''logs'' @ '','' @ label ''server'' ''s2'' @ ''} n/a''"

section \<open>Range-key normalization\<close>

text \<open>A string in which no digit is directly followed by a letter.\<close>

fun noDigitLetter :: "string \<Rightarrow> bool" where
  "noDigitLetter (a # b # cs) = (\<not> (isDigit a \<and> isLetter b) \<and> noDigitLetter (b # cs))"
| "noDigitLetter cs = True"

lemma underscore_not_digit [simp]: "\<not> isDigit CHR ''_''"
  by (simp add: isDigit_def byte_def)

lemma underscore_not_letter [simp]: "\<not> isLetter CHR ''_''"
  by (simp add: isLetter_def byte_def)

lemma insertUnderscores_fixed: "noDigitLetter s \<Longrightarrow> insertUnderscores s = s"
  by (induction s rule: insertUnderscores.induct) auto

lemma insertUnderscores_hd: "\<exists>t. insertUnderscores (b # cs) = b # t"
  by (cases cs) auto

lemma noDigitLetter_insertUnderscores: "noDigitLetter (insertUnderscores s)"
proof (induction s rule: insertUnderscores.induct)
  case (1 a b cs)
  obtain t where t: "insertUnderscores (b # cs) = b # t"
    using insertUnderscores_hd by blast
  with 1 show ?case by auto
qed simp_all

lemma ReplaceAll_uu_hd: "\<exists>t. ReplaceAll_uu (b # cs) = b # t"
  by (cases cs) auto

lemma noDigitLetter_tl: "noDigitLetter (a # cs) \<Longrightarrow> noDigitLetter cs"
  by (cases cs) auto

lemma noDigitLetter_ReplaceAll_uu:
  "noDigitLetter s \<Longrightarrow> noDigitLetter (ReplaceAll_uu s)"
proof (induction s rule: ReplaceAll_uu.induct)
  case (1 a b cs)
  show ?case
  proof (cases "a = CHR ''_'' \<and> b = CHR ''_''")
    case True
    from "1.prems" have "noDigitLetter cs"
      by (meson noDigitLetter_tl)
    with True "1.IH"(1) have n: "noDigitLetter (ReplaceAll_uu cs)" by blast
    have "noDigitLetter (CHR ''_'' # ReplaceAll_uu cs)"
      using n by (cases "ReplaceAll_uu cs") auto
    with True show ?thesis by simp
  next
    case False
    obtain t where t: "ReplaceAll_uu (b # cs) = b # t"
      using ReplaceAll_uu_hd by blast
    from "1.prems" have "noDigitLetter (b # cs)" by simp
    with False "1.IH"(2) have "noDigitLetter (ReplaceAll_uu (b # cs))" by blast
    with False t "1.prems" show ?thesis by auto
  qed
qed simp_all

lemma noDigitLetter_collapseUnderscores:
  "noDigitLetter s \<Longrightarrow> noDigitLetter (collapseUnderscores s)"
proof (induction s rule: collapseUnderscores.induct)
  case (1 cur)
  then show ?case
    by (subst collapseUnderscores.simps) (auto simp: noDigitLetter_ReplaceAll_uu)
qed

lemma collapseUnderscores_no_uu: "\<not> Contains (collapseUnderscores s) ''__''"
proof (induction s rule: collapseUnderscores.induct)
  case (1 cur)
  then show ?case
    by (subst collapseUnderscores.simps) auto
qed

lemma collapseUnderscores_fixed:
  "\<not> Contains s ''__'' \<Longrightarrow> collapseUnderscores s = s"
  by (subst collapseUnderscores.simps) simp

lemma normalizeRange_idem: "normalizeRange (normalizeRange s) = normalizeRange s"
proof (cases "s = []")
  case True
  then show ?thesis by (simp add: normalizeRange_def)
next
  case False
  let ?n = "collapseUnderscores (insertUnderscores s)"
  have "noDigitLetter ?n"
    by (simp add: noDigitLetter_collapseUnderscores noDigitLetter_insertUnderscores)
  then have "insertUnderscores ?n = ?n" by (rule insertUnderscores_fixed)
  moreover have "collapseUnderscores ?n = ?n"
    by (rule collapseUnderscores_fixed) (rule collapseUnderscores_no_uu)
  ultimately show ?thesis using False by (simp add: normalizeRange_def)
qed

lemma insertUnderscores_boundary:
  "isDigit d \<Longrightarrow> isLetter l \<Longrightarrow>
   insertUnderscores (xs @ d # l # ys) = insertUnderscores (xs @ d # CHR ''_'' # l # ys)"
proof (induction xs)
  case Nil
  then show ?case by simp
next
  case (Cons x xs)
  then show ?case by (cases xs) auto
qed

lemma normalizeRange_boundary:
  "isDigit d \<Longrightarrow> isLetter l \<Longrightarrow>
   normalizeRange (xs @ d # l # ys) = normalizeRange (xs @ d # CHR ''_'' # l # ys)"
  by (simp add: normalizeRange_def insertUnderscores_boundary)

lemma normalizeRange_1024B: "normalizeRange ''BETWEEN_1024B_AND_1_MB'' = ''BETWEEN_1024_B_AND_1_MB''"
  by code_simp

lemma normalizeRange_1024_B: "normalizeRange ''BETWEEN_1024_B_AND_1_MB'' = ''BETWEEN_1024_B_AND_1_MB''"
  by code_simp

text \<open>
  Claim C2. \<open>normalizeRange\<close> is idempotent on every string. Two spellings that differ
  by one underscore between a digit \<open>d\<close> and the letter \<open>l\<close> that follows it have the
  same normal form, whatever stands before and after; so have spellings that differ at
  several such boundaries, one boundary at a time. \<open>BETWEEN_1024B_AND_1_MB\<close> and
  \<open>BETWEEN_1024_B_AND_1_MB\<close> both give \<open>BETWEEN_1024_B_AND_1_MB\<close>.
\<close>

theorem normalizeRange_idempotent_and_canonical:
  "normalizeRange (normalizeRange s) = normalizeRange s
   \<and> (isDigit d \<and> isLetter l \<longrightarrow>
        normalizeRange (xs @ d # l # ys) = normalizeRange (xs @ d # CHR ''_'' # l # ys))
   \<and> normalizeRange ''BETWEEN_1024B_AND_1_MB'' = ''BETWEEN_1024_B_AND_1_MB''
   \<and> normalizeRange ''BETWEEN_1024_B_AND_1_MB'' = ''BETWEEN_1024_B_AND_1_MB''"
  using normalizeRange_idem normalizeRange_boundary normalizeRange_1024B normalizeRange_1024_B
  by blast

theorem normalizeRange_idempotent_and_canonical_witness:
  "isDigit CHR ''4'' \<and> isLetter CHR ''K''
   \<and> normalizeRange (''BETWEEN_64'' @ CHR ''K'' # ''B_AND_256_KB'')
     = normalizeRange (''BETWEEN_64'' @ CHR ''_'' # CHR ''K'' # ''B_AND_256_KB'')
   \<and> normalizeRange (normalizeRange ''1a__2b'') = normalizeRange ''1a__2b''"
proof -
  have dl: "isDigit CHR ''4'' \<and> isLetter CHR ''K''"
    by (simp add: isDigit_def isLetter_def byte_def)
  from normalizeRange_idempotent_and_canonical
    [of "''1a__2b''" "CHR ''4''" "CHR ''K''" "''BETWEEN_6''" "''B_AND_256_KB''"] dl
  show ?thesis by simp
qed

section \<open>Accumulation of the object count\<close>

lemma buckets_parseClusterLine [simp]: "buckets (parseClusterLine fl line mp) = buckets mp"
  by (simp add: parseClusterLine_def Let_def)

lemma ObjectCount_unchanged [simp]:
  "ObjectCount (parseSizeDist fl line b) = ObjectCount b"
  "ObjectCount (parseVersionDist fl line b) = ObjectCount b"
  "ObjectCount (parseTotalBytes fl line b) = ObjectCount b"
  "ObjectCount (addServer b s) = ObjectCount b"
  by (simp_all add: parseSizeDist_def parseVersionDist_def parseTotalBytes_def addServer_def Let_def)

lemma ObjectCount_parseObjectTotal:
  "ObjectCount (parseObjectTotal fl line b) =
     ObjectCount b + (if Contains line ''minio_bucket_usage_object_total''
                      then extractValue fl line else 0)"
  by (simp add: parseObjectTotal_def)

definition objectCountOf :: "MetricParser \<Rightarrow> string \<Rightarrow> int64" where
  "objectCountOf mp b =
     (case map_of (buckets mp) b of None \<Rightarrow> 0 | Some bucket \<Rightarrow> ObjectCount bucket)"

definition objectTotalValue :: "go_float \<Rightarrow> string \<Rightarrow> string \<Rightarrow> int64" where
  "objectTotalValue fl b line =
     (if \<not> skipped line \<and> extractBucketName line = b \<and> b \<noteq> []
         \<and> Contains line ''minio_bucket_usage_object_total''
      then extractValue fl line else 0)"

lemma objectCountOf_parseBucketLine:
  "objectCountOf (parseBucketLine fl k line mp) b =
     objectCountOf mp b +
       (if b = k \<and> Contains line ''minio_bucket_usage_object_total''
        then extractValue fl line else 0)"
  by (simp add: objectCountOf_def parseBucketLine_def Let_def update_conv'
        ObjectCount_parseObjectTotal newBucket_def split: option.splits)

lemma objectCountOf_parseLine:
  "objectCountOf (parseLine fl raw mp) b =
     objectCountOf mp b + objectTotalValue fl b (TrimSpace raw)"
proof -
  let ?line = "TrimSpace raw"
  show ?thesis
  proof (cases "skipped ?line")
    case True
    then show ?thesis by (simp add: parseLine_def objectTotalValue_def)
  next
    case False
    show ?thesis
    proof (cases "extractBucketName ?line = []")
      case True
      with False show ?thesis
        by (auto simp add: parseLine_def objectTotalValue_def objectCountOf_def)
    next
      case nonempty: False
      with False show ?thesis
        by (auto simp add: parseLine_def Let_def objectTotalValue_def objectCountOf_parseBucketLine)
    qed
  qed
qed

lemma objectCountOf_fold:
  "objectCountOf (fold (parseLine fl) lines mp) b =
     objectCountOf mp b + sum_list (map (\<lambda>raw. objectTotalValue fl b (TrimSpace raw)) lines)"
  by (induction lines arbitrary: mp) (simp_all add: objectCountOf_parseLine add.assoc)

lemma sum_list_objectTotalValue:
  "b \<noteq> [] \<Longrightarrow>
   sum_list (map (\<lambda>raw. objectTotalValue fl b (TrimSpace raw)) lines) =
   sum_list (map (extractValue fl)
     [line \<leftarrow> map TrimSpace lines.
        \<not> skipped line \<and> extractBucketName line = b
        \<and> Contains line ''minio_bucket_usage_object_total''])"
  by (induction lines) (simp_all add: objectTotalValue_def)

lemma no_empty_bucket_parseLine:
  "map_of (buckets (parseLine fl raw mp)) [] = map_of (buckets mp) []"
  by (simp add: parseLine_def parseBucketLine_def Let_def update_conv')

lemma no_empty_bucket_fold:
  "map_of (buckets (fold (parseLine fl) lines mp)) [] = map_of (buckets mp) []"
  by (induction lines arbitrary: mp) (simp_all add: no_empty_bucket_parseLine)

text \<open>
  Claim C1. After a parse from a new parser, the \<open>ObjectCount\<close> of every bucket of the map
  is the sum, in \<open>int64\<close> as the counter is, of the values of the lines (trimmed; comment
  and blank lines are no metric lines) whose bucket label, as \<open>extractBucketName\<close> reads
  it, is the bucket's name and which contain \<open>minio_bucket_usage_object_total\<close>. The
  server label plays no part, and the sum is over every such line, so no value is
  overwritten.
\<close>

theorem ObjectCount_additive:
  assumes "map_of (buckets (snd (ParseFile fl (Scanned lines failed) NewMetricParser))) b = Some bucket"
  shows "ObjectCount bucket =
     sum_list (map (extractValue fl)
       [line \<leftarrow> map TrimSpace lines.
          \<not> skipped line \<and> extractBucketName line = b
          \<and> Contains line ''minio_bucket_usage_object_total''])"
proof -
  define mp where "mp = snd (ParseFile fl (Scanned lines failed) NewMetricParser)"
  then have mp: "mp = fold (parseLine fl) lines NewMetricParser"
    by (simp add: ParseFile_def)
  from assms have found: "map_of (buckets mp) b = Some bucket"
    by (simp add: mp_def)
  have "b \<noteq> []"
  proof
    assume "b = []"
    with found mp no_empty_bucket_fold [of fl lines NewMetricParser]
    show False by (simp add: NewMetricParser_def)
  qed
  have "ObjectCount bucket = objectCountOf mp b"
    using found by (simp add: objectCountOf_def)
  also have "\<dots> = sum_list (map (\<lambda>raw. objectTotalValue fl b (TrimSpace raw)) lines)"
    by (simp add: mp objectCountOf_fold) (simp add: objectCountOf_def NewMetricParser_def)
  finally show ?thesis
    using \<open>b \<noteq> []\<close> by (simp add: sum_list_objectTotalValue)
qed

theorem ObjectCount_additive_witness:
  "map_of (buckets (snd (ParseFile exampleFloat (Scanned twoServers False) NewMetricParser))) ''logs''
     = Some \<lparr>Name = ''logs'', ObjectCount = 12, SizeBytes = 0, SizeHuman = [],
             Servers = [''s1'', ''s2'', []], VersionDistribution = [], SizeDistribution = []\<rparr>
   \<and> (12 :: int64) = sum_list (map (extractValue exampleFloat)
       [line \<leftarrow> map TrimSpace twoServers.
          \<not> skipped line \<and> extractBucketName line = ''logs''
          \<and> Contains line ''minio_bucket_usage_object_total''])"
proof -
  have h: "map_of (buckets (snd (ParseFile exampleFloat (Scanned twoServers False) NewMetricParser))) ''logs''
     = Some \<lparr>Name = ''logs'', ObjectCount = 12, SizeBytes = 0, SizeHuman = [],
             Servers = [''s1'', ''s2'', []], VersionDistribution = [], SizeDistribution = []\<rparr>"
    by code_simp
  from ObjectCount_additive [OF h] h show ?thesis by simp
qed

section \<open>Bucket entries and server lists\<close>

definition hasServer :: "MetricParser \<Rightarrow> string \<Rightarrow> string \<Rightarrow> bool" where
  "hasServer mp b s =
     (case map_of (buckets mp) b of None \<Rightarrow> False | Some bucket \<Rightarrow> s \<in> set (Servers bucket))"

text \<open>Every bucket is filed under its name and lists each server once.\<close>

definition bucketsWellFormed :: "MetricParser \<Rightarrow> bool" where
  "bucketsWellFormed mp =
     (\<forall>b bucket. map_of (buckets mp) b = Some bucket \<longrightarrow>
        Name bucket = b \<and> distinct (Servers bucket))"

lemma Servers_unchanged [simp]:
  "Servers (parseSizeDist fl line b) = Servers b"
  "Servers (parseVersionDist fl line b) = Servers b"
  "Servers (parseTotalBytes fl line b) = Servers b"
  "Servers (parseObjectTotal fl line b) = Servers b"
  by (simp_all add: parseSizeDist_def parseVersionDist_def parseTotalBytes_def
        parseObjectTotal_def Let_def)

lemma Name_unchanged [simp]:
  "Name (parseSizeDist fl line b) = Name b"
  "Name (parseVersionDist fl line b) = Name b"
  "Name (parseTotalBytes fl line b) = Name b"
  "Name (parseObjectTotal fl line b) = Name b"
  "Name (addServer b s) = Name b"
  by (simp_all add: parseSizeDist_def parseVersionDist_def parseTotalBytes_def
        parseObjectTotal_def addServer_def Let_def)

lemma set_Servers_addServer: "set (Servers (addServer b s)) = insert s (set (Servers b))"
  by (auto simp: addServer_def)

lemma distinct_Servers_addServer:
  "distinct (Servers b) \<Longrightarrow> distinct (Servers (addServer b s))"
  by (simp add: addServer_def)

lemma hasServer_parseBucketLine:
  "hasServer (parseBucketLine fl k line mp) b s =
     (if b = k then s = extractServerName line \<or> hasServer mp b s else hasServer mp b s)"
  by (auto simp add: hasServer_def parseBucketLine_def Let_def update_conv'
        set_Servers_addServer newBucket_def split: option.splits)

lemma hasServer_parseClusterLine [simp]:
  "hasServer (parseClusterLine fl line mp) b s = hasServer mp b s"
  by (simp add: hasServer_def)

lemma hasServer_parseLine_keeps:
  "hasServer mp b s \<Longrightarrow> hasServer (parseLine fl raw mp) b s"
  by (auto simp add: parseLine_def Let_def hasServer_parseBucketLine)

lemma count_list_distinct: "distinct xs \<Longrightarrow> x \<in> set xs \<Longrightarrow> count_list xs x = 1"
  by (induction xs) auto

lemma hasServer_parseLine_adds:
  "\<not> skipped (TrimSpace raw) \<Longrightarrow> extractBucketName (TrimSpace raw) = b \<Longrightarrow> b \<noteq> [] \<Longrightarrow>
   hasServer (parseLine fl raw mp) b (extractServerName (TrimSpace raw))"
  by (simp add: parseLine_def Let_def hasServer_parseBucketLine)

lemma hasServer_fold_keeps:
  "hasServer mp b s \<Longrightarrow> hasServer (fold (parseLine fl) lines mp) b s"
  by (induction lines arbitrary: mp) (simp_all add: hasServer_parseLine_keeps)

lemma hasServer_fold_adds:
  "raw \<in> set lines \<Longrightarrow> \<not> skipped (TrimSpace raw) \<Longrightarrow>
   extractBucketName (TrimSpace raw) = b \<Longrightarrow> b \<noteq> [] \<Longrightarrow>
   hasServer (fold (parseLine fl) lines mp) b (extractServerName (TrimSpace raw))"
proof (induction lines arbitrary: mp)
  case Nil
  then show ?case by simp
next
  case (Cons l lines)
  show ?case
  proof (cases "raw = l")
    case True
    with Cons.prems show ?thesis
      by (simp add: hasServer_fold_keeps hasServer_parseLine_adds)
  next
    case False
    with Cons show ?thesis by simp
  qed
qed

lemma bucketsWellFormed_parseBucketLine:
  "bucketsWellFormed mp \<Longrightarrow> bucketsWellFormed (parseBucketLine fl k line mp)"
  by (auto simp add: bucketsWellFormed_def parseBucketLine_def Let_def update_conv'
        distinct_Servers_addServer newBucket_def split: option.splits if_splits)

lemma bucketsWellFormed_parseClusterLine [simp]:
  "bucketsWellFormed (parseClusterLine fl line mp) = bucketsWellFormed mp"
  by (simp add: bucketsWellFormed_def)

lemma bucketsWellFormed_parseLine:
  "bucketsWellFormed mp \<Longrightarrow> bucketsWellFormed (parseLine fl raw mp)"
  by (simp add: parseLine_def Let_def bucketsWellFormed_parseBucketLine)

lemma bucketsWellFormed_fold:
  "bucketsWellFormed mp \<Longrightarrow> bucketsWellFormed (fold (parseLine fl) lines mp)"
  by (induction lines arbitrary: mp) (simp_all add: bucketsWellFormed_parseLine)

lemma bucketsWellFormed_New: "bucketsWellFormed NewMetricParser"
  by (simp add: bucketsWellFormed_def NewMetricParser_def)

subsection \<open>Labels as they stand in the text\<close>

text \<open>
  A label read off the text: \<open>s\<close> begins with \<open>key="v"\<close>, the value \<open>v\<close> not empty and
  free of double quotes.
\<close>

definition labelAt :: "string \<Rightarrow> string \<Rightarrow> string \<Rightarrow> bool" where
  "labelAt key v s =
     (v \<noteq> [] \<and> CHR 0x22 \<notin> set v
      \<and> (\<exists>rest. s = key @ [CHR ''='', CHR 0x22] @ v @ CHR 0x22 # rest))"

text \<open>The value of the leftmost label \<open>key\<close> of a line, and a line without such a label.\<close>

definition leftmostLabel :: "string \<Rightarrow> string \<Rightarrow> string \<Rightarrow> bool" where
  "leftmostLabel key line v =
     (\<exists>i. labelAt key v (drop i line) \<and> (\<forall>j<i. \<forall>w. \<not> labelAt key w (drop j line)))"

definition noLabel :: "string \<Rightarrow> string \<Rightarrow> bool" where
  "noLabel key line = (\<forall>i w. \<not> labelAt key w (drop i line))"

lemma HasPrefix_iff: "HasPrefix s p \<longleftrightarrow> (\<exists>r. s = p @ r)"
  by (induction s p rule: HasPrefix.induct) auto

lemma matchLabelAt_iff: "matchLabelAt key s = Some v \<longleftrightarrow> labelAt key v s"
proof
  assume m: "matchLabelAt key s = Some v"
  then obtain r where s: "s = (key @ [CHR ''='', CHR 0x22]) @ r"
    by (auto simp: matchLabelAt_def HasPrefix_iff split: if_splits)
  then have d: "drop (Suc (Suc (length key))) s = r" "drop (length key + 2) s = r" by simp_all
  from m have v: "v = takeWhile (\<lambda>c. c \<noteq> CHR 0x22) r" "v \<noteq> []"
    and a: "dropWhile (\<lambda>c. c \<noteq> CHR 0x22) r \<noteq> []"
    by (auto simp: matchLabelAt_def Let_def d split: if_splits)
  from a have "hd (dropWhile (\<lambda>c. c \<noteq> CHR 0x22) r) = CHR 0x22"
    using hd_dropWhile [of "\<lambda>c. c \<noteq> CHR 0x22" r] by simp
  with a obtain rest where "dropWhile (\<lambda>c. c \<noteq> CHR 0x22) r = CHR 0x22 # rest"
    by (cases "dropWhile (\<lambda>c. c \<noteq> CHR 0x22) r") auto
  then have "r = v @ CHR 0x22 # rest"
    using takeWhile_dropWhile_id [of "\<lambda>c. c \<noteq> CHR 0x22" r] by (simp add: v)
  moreover have "CHR 0x22 \<notin> set v"
    unfolding v using set_takeWhileD by fastforce
  ultimately show "labelAt key v s"
    using v(2) s by (auto simp: labelAt_def)
next
  assume "labelAt key v s"
  then obtain rest where v: "v \<noteq> []" "CHR 0x22 \<notin> set v"
    and s: "s = (key @ [CHR ''='', CHR 0x22]) @ v @ CHR 0x22 # rest"
    by (auto simp: labelAt_def)
  have p: "HasPrefix s (key @ [CHR ''='', CHR 0x22])"
    unfolding HasPrefix_iff using s by blast
  have d: "drop (Suc (Suc (length key))) s = v @ CHR 0x22 # rest" using s by simp
  have t: "takeWhile (\<lambda>c. c \<noteq> CHR 0x22) (v @ CHR 0x22 # rest) = v"
    using v(2) by (auto simp: takeWhile_tail)
  have w: "dropWhile (\<lambda>c. c \<noteq> CHR 0x22) (v @ CHR 0x22 # rest) = CHR 0x22 # rest"
    using v(2) by (auto simp: dropWhile_append3)
  show "matchLabelAt key s = Some v"
    using p v by (simp add: matchLabelAt_def Let_def d t)
qed

lemma matchLabelAt_None_iff: "matchLabelAt key s = None \<longleftrightarrow> (\<forall>w. \<not> labelAt key w s)"
  using matchLabelAt_iff [of key s] by (metis option.distinct(1) option.exhaust)

lemma all_drop_Cons:
  "(\<forall>i. P (drop i (c # cs))) \<longleftrightarrow> P (c # cs) \<and> (\<forall>i. P (drop i cs))"
proof
  assume a: "\<forall>i. P (drop i (c # cs))"
  have "P (drop 0 (c # cs))" using a by blast
  moreover have "P (drop i cs)" for i using a [rule_format, of "Suc i"] by simp
  ultimately show "P (c # cs) \<and> (\<forall>i. P (drop i cs))" by simp
next
  assume a: "P (c # cs) \<and> (\<forall>i. P (drop i cs))"
  show "\<forall>i. P (drop i (c # cs))"
  proof
    fix i show "P (drop i (c # cs))" using a by (cases i) simp_all
  qed
qed

lemma FindLabel_None_iff: "FindLabel key line = None \<longleftrightarrow> noLabel key line"
proof (induction line)
  case Nil
  show ?case by (simp add: noLabel_def labelAt_def)
next
  case (Cons c cs)
  have "noLabel key (c # cs) \<longleftrightarrow> (\<forall>w. \<not> labelAt key w (c # cs)) \<and> noLabel key cs"
    unfolding noLabel_def using all_drop_Cons [of "\<lambda>s. \<forall>w. \<not> labelAt key w s" c cs] by blast
  with Cons show ?case
    by (auto simp: matchLabelAt_None_iff [symmetric] split: option.splits)
qed

lemma leftmostLabel_here:
  assumes "labelAt key v' (c # cs)"
  shows "leftmostLabel key (c # cs) v \<longleftrightarrow> v = v'"
proof
  assume "leftmostLabel key (c # cs) v"
  then obtain i where i: "labelAt key v (drop i (c # cs))"
    and least: "\<forall>j<i. \<forall>w. \<not> labelAt key w (drop j (c # cs))"
    by (auto simp: leftmostLabel_def)
  have "i = 0"
  proof (rule ccontr)
    assume "i \<noteq> 0"
    with least have "\<not> labelAt key v' (drop 0 (c # cs))" by blast
    with assms show False by simp
  qed
  with i have "matchLabelAt key (c # cs) = Some v" by (simp add: matchLabelAt_iff)
  moreover from assms have "matchLabelAt key (c # cs) = Some v'" by (simp add: matchLabelAt_iff)
  ultimately show "v = v'" by simp
next
  assume "v = v'"
  with assms have "labelAt key v (drop 0 (c # cs))" by simp
  then show "leftmostLabel key (c # cs) v"
    unfolding leftmostLabel_def by (intro exI [of _ 0]) simp
qed

lemma leftmostLabel_later:
  assumes "\<forall>w. \<not> labelAt key w (c # cs)"
  shows "leftmostLabel key (c # cs) v \<longleftrightarrow> leftmostLabel key cs v"
proof
  assume "leftmostLabel key (c # cs) v"
  then obtain i where i: "labelAt key v (drop i (c # cs))"
    and least: "\<forall>j<i. \<forall>w. \<not> labelAt key w (drop j (c # cs))"
    by (auto simp: leftmostLabel_def)
  from i assms obtain k where k: "i = Suc k" by (cases i) auto
  have "\<forall>j<k. \<forall>w. \<not> labelAt key w (drop j cs)"
  proof (intro allI impI)
    fix j w assume "j < k"
    then have "Suc j < i" by (simp add: k)
    with least have "\<not> labelAt key w (drop (Suc j) (c # cs))" by blast
    then show "\<not> labelAt key w (drop j cs)" by simp
  qed
  with i show "leftmostLabel key cs v"
    unfolding leftmostLabel_def k by (intro exI [of _ k]) simp
next
  assume "leftmostLabel key cs v"
  then obtain k where k: "labelAt key v (drop k cs)"
    and least: "\<forall>j<k. \<forall>w. \<not> labelAt key w (drop j cs)"
    by (auto simp: leftmostLabel_def)
  have "\<forall>j<Suc k. \<forall>w. \<not> labelAt key w (drop j (c # cs))"
  proof (intro allI impI)
    fix j w assume j: "j < Suc k"
    show "\<not> labelAt key w (drop j (c # cs))"
    proof (cases j)
      case 0
      with assms show ?thesis by simp
    next
      case (Suc j')
      with j least show ?thesis by simp
    qed
  qed
  with k show "leftmostLabel key (c # cs) v"
    unfolding leftmostLabel_def by (intro exI [of _ "Suc k"]) simp
qed

lemma FindLabel_Some_iff: "FindLabel key line = Some v \<longleftrightarrow> leftmostLabel key line v"
proof (induction line)
  case Nil
  show ?case by (simp add: leftmostLabel_def labelAt_def)
next
  case (Cons c cs)
  show ?case
  proof (cases "matchLabelAt key (c # cs)")
    case None
    then have "\<forall>w. \<not> labelAt key w (c # cs)" by (simp add: matchLabelAt_None_iff)
    from leftmostLabel_later [OF this] None Cons show ?thesis by simp
  next
    case (Some v')
    then have "labelAt key v' (c # cs)" by (simp add: matchLabelAt_iff)
    from leftmostLabel_here [OF this] Some show ?thesis by auto
  qed
qed

lemma leftmostLabel_nonempty: "leftmostLabel key line v \<Longrightarrow> v \<noteq> []"
  by (auto simp: leftmostLabel_def labelAt_def)

lemma extractBucketName_leftmost:
  "leftmostLabel ''bucket'' line b \<Longrightarrow> extractBucketName line = b"
  by (simp add: extractBucketName_def FindLabel_Some_iff [symmetric])

lemma extractServerName_leftmost:
  "leftmostLabel ''server'' line s \<Longrightarrow> extractServerName line = s"
  by (simp add: extractServerName_def FindLabel_Some_iff [symmetric])

lemma extractServerName_noLabel:
  "noLabel ''server'' line \<Longrightarrow> extractServerName line = []"
  by (simp add: extractServerName_def FindLabel_None_iff [symmetric])

lemma leftmostLabel_line_nonempty: "leftmostLabel key line v \<Longrightarrow> line \<noteq> []"
  by (auto simp: leftmostLabel_def labelAt_def)

lemma skipped_iff: "skipped line \<longleftrightarrow> line = [] \<or> hd line = CHR ''#''"
  by (cases line) (auto simp: skipped_def)

text \<open>
  Claim C10. Take a line of the input that, trimmed, does not begin with \<open>#\<close> and whose
  leftmost label \<open>bucket="b"\<close> has the value \<open>b\<close>, and let \<open>s\<close> be the value of its
  leftmost label \<open>server="s"\<close>, or the empty string when the line has no such label. At
  the end of the parse the map holds a bucket under the key \<open>b\<close>, named \<open>b\<close>, whose server
  list holds \<open>s\<close> exactly once. No metric family is asked of the line: the lines of the
  witness belong to none of the four, one of them with a server label and one without.
\<close>

theorem bucket_line_creates_bucket_and_records_server:
  assumes "raw \<in> set lines" and "line = TrimSpace raw"
      and "hd line \<noteq> CHR ''#''"
      and "leftmostLabel ''bucket'' line b"
      and "leftmostLabel ''server'' line s \<or> noLabel ''server'' line \<and> s = []"
      and "mp = snd (ParseFile fl (Scanned lines failed) NewMetricParser)"
  shows "\<exists>bucket. map_of (buckets mp) b = Some bucket \<and> Name bucket = b
           \<and> count_list (Servers bucket) s = 1"
proof -
  from assms(6) have mp: "mp = fold (parseLine fl) lines NewMetricParser"
    by (simp add: ParseFile_def)
  have b: "extractBucketName line = b" "b \<noteq> []"
    using assms(4) by (simp_all add: extractBucketName_leftmost leftmostLabel_nonempty)
  have s: "extractServerName line = s"
    using assms(5) by (auto simp: extractServerName_leftmost extractServerName_noLabel)
  have n: "\<not> skipped line"
    using assms(3) leftmostLabel_line_nonempty [OF assms(4)] by (simp add: skipped_iff)
  have "hasServer mp b (extractServerName (TrimSpace raw))"
    unfolding mp using assms(1) n b by (intro hasServer_fold_adds) (simp_all add: assms(2))
  then have "hasServer mp b s" using s by (simp add: assms(2))
  then obtain bucket where m: "map_of (buckets mp) b = Some bucket"
      and e: "s \<in> set (Servers bucket)"
    by (auto simp: hasServer_def split: option.splits)
  have "bucketsWellFormed mp"
    unfolding mp by (rule bucketsWellFormed_fold [OF bucketsWellFormed_New])
  with m have "Name bucket = b" "distinct (Servers bucket)"
    by (auto simp: bucketsWellFormed_def)
  with m e show ?thesis
    by (auto simp: count_list_distinct)
qed

theorem bucket_line_creates_bucket_and_records_server_witness:
  "leftmostLabel ''bucket'' (quotaLines ! 0) ''logs'' \<and> leftmostLabel ''server'' (quotaLines ! 0) ''s3''
   \<and> leftmostLabel ''bucket'' (quotaLines ! 1) ''logs'' \<and> noLabel ''server'' (quotaLines ! 1)
   \<and> (\<exists>bucket. map_of (buckets (snd (ParseFile exampleFloat (Scanned quotaLines False) NewMetricParser))) ''logs'' = Some bucket
        \<and> Name bucket = ''logs'' \<and> count_list (Servers bucket) ''s3'' = 1)
   \<and> (\<exists>bucket. map_of (buckets (snd (ParseFile exampleFloat (Scanned quotaLines False) NewMetricParser))) ''logs'' = Some bucket
        \<and> Name bucket = ''logs'' \<and> count_list (Servers bucket) [] = 1)"
proof -
  let ?l0 = "quotaLines ! 0" and ?l1 = "quotaLines ! 1"
  have in0: "?l0 \<in> set quotaLines" and in1: "?l1 \<in> set quotaLines"
    by (simp_all add: quotaLines_def)
  have t0: "?l0 = TrimSpace ?l0" and t1: "?l1 = TrimSpace ?l1" by code_simp+
  have h0: "hd ?l0 \<noteq> CHR ''#''" and h1: "hd ?l1 \<noteq> CHR ''#''" by code_simp+
  have "FindLabel ''bucket'' ?l0 = Some ''logs''" by code_simp
  then have b0: "leftmostLabel ''bucket'' ?l0 ''logs''" by (simp only: FindLabel_Some_iff)
  have "FindLabel ''server'' ?l0 = Some ''s3''" by code_simp
  then have s0: "leftmostLabel ''server'' ?l0 ''s3''" by (simp only: FindLabel_Some_iff)
  have "FindLabel ''bucket'' ?l1 = Some ''logs''" by code_simp
  then have b1: "leftmostLabel ''bucket'' ?l1 ''logs''" by (simp only: FindLabel_Some_iff)
  have "FindLabel ''server'' ?l1 = None" by code_simp
  then have s1: "noLabel ''server'' ?l1" by (simp only: FindLabel_None_iff)
  note a = bucket_line_creates_bucket_and_records_server
    [OF in0 t0 h0 b0 disjI1 [OF s0] refl, of exampleFloat False]
  note b = bucket_line_creates_bucket_and_records_server
    [OF in1 t1 h1 b1 disjI2 [OF conjI [OF s1 refl]] refl, of exampleFloat False]
  from a b b0 s0 b1 s1 show ?thesis by blast
qed

lemma quotaLines_servers:
  "map (\<lambda>(k, b). (k, Servers b)) (buckets (snd (ParseFile exampleFloat (Scanned quotaLines False) NewMetricParser)))
     = [(''logs'', [''s3'', ''''])]"
  by code_simp

section \<open>The summary table\<close>

text \<open>Sizes that do not increase from top to bottom, compared as \<open>int64\<close>.\<close>

definition sizeNonIncreasing :: "int64 list \<Rightarrow> bool" where
  "sizeNonIncreasing sizes = sorted_wrt (\<lambda>upper lower. sint lower \<le> sint upper) sizes"

lemma set_insertBy: "set (insertBy lt x xs) = insert x (set xs)"
  by (induction xs) auto

lemma length_insertBy: "length (insertBy lt x xs) = Suc (length xs)"
  by (induction xs) auto

lemma sizeNonIncreasing_insertBy:
  "sizeNonIncreasing (map SizeBytes xs) \<Longrightarrow>
   sizeNonIncreasing (map SizeBytes (insertBy largerSize x xs))"
proof (induction xs)
  case Nil
  then show ?case by (simp add: sizeNonIncreasing_def)
next
  case (Cons y ys)
  show ?case
  proof (cases "largerSize x y")
    case True
    then have "sint (SizeBytes y) < sint (SizeBytes x)"
      by (simp add: largerSize_def word_sless_alt)
    with Cons.prems show ?thesis
      using True by (fastforce simp: sizeNonIncreasing_def)
  next
    case False
    then have "sint (SizeBytes x) \<le> sint (SizeBytes y)"
      by (simp add: largerSize_def word_sless_alt)
    with Cons False show ?thesis
      by (auto simp: sizeNonIncreasing_def set_insertBy)
  qed
qed

lemma sizeNonIncreasing_foldl:
  "sizeNonIncreasing (map SizeBytes acc) \<Longrightarrow>
   sizeNonIncreasing (map SizeBytes (foldl (\<lambda>done x. insertBy largerSize x done) acc xs))"
  by (induction xs arbitrary: acc) (simp_all add: sizeNonIncreasing_insertBy)

lemma sizeNonIncreasing_sort_Slice:
  "sizeNonIncreasing (map SizeBytes (sort_Slice largerSize xs))"
  unfolding sort_Slice_def by (rule sizeNonIncreasing_foldl) (simp add: sizeNonIncreasing_def)

lemma sizeNonIncreasing_withCluster:
  "sizeNonIncreasing (map SizeBytes summaries) \<Longrightarrow>
   sizeNonIncreasing (map SizeBytes (withCluster fl opts mp summaries))"
  by (simp add: withCluster_def sizeNonIncreasing_sort_Slice)

lemma printRows_fold:
  "fold (\<lambda>bucket (out, sumObjects, sumBytes).
             (out @ [printRow fl opts bucket],
              sumObjects + ObjectCount bucket,
              sumBytes + SizeBytes bucket))
        summaries (out0, objects0, bytes0) =
     (out0 @ map (printRow fl opts) summaries,
      objects0 + sum_list (map ObjectCount summaries),
      bytes0 + sum_list (map SizeBytes summaries))"
  by (induction summaries arbitrary: out0 objects0 bytes0) (simp_all add: add.assoc)

lemma printRows_eq:
  "printRows fl opts summaries =
     (map (printRow fl opts) summaries,
      sum_list (map ObjectCount summaries),
      sum_list (map SizeBytes summaries))"
  by (simp add: printRows_def printRows_fold)

lemma rowSizeBytes_printRow [simp]: "rowSizeBytes (printRow fl opts b) = SizeBytes b"
  by (simp add: printRow_def Let_def)

lemma rowObjectCount_printRow [simp]: "rowObjectCount (printRow fl opts b) = ObjectCount b"
  by (simp add: printRow_def Let_def)

lemma tableRows_printTable [simp]:
  "tableRows (printTable fl opts notice summaries) = map (printRow fl opts) summaries"
  by (simp add: printTable_def printRows_eq)

lemma totals_printTable [simp]:
  "totalObjects (printTable fl opts notice summaries) = sum_list (map ObjectCount summaries)"
  "totalBytes (printTable fl opts notice summaries) = sum_list (map SizeBytes summaries)"
  "totalBuckets (printTable fl opts notice summaries) = length summaries"
  by (simp_all add: printTable_def printRows_eq)

text \<open>The summaries that \<open>PrintSummaryTable\<close> renders, when it renders a table.\<close>

lemma PrintSummaryTable_cases:
  "PrintSummaryTable fl opts mp = Table t \<Longrightarrow>
   \<exists>summaries notice. t = printTable fl opts notice (withCluster fl opts mp summaries)
      \<and> (summaries = GetSummary mp \<or> summaries = [clusterSummary fl mp])"
  by (auto simp: PrintSummaryTable_def Let_def split: if_splits)

lemma withClusterTable_printed:
  "PrintSummaryTable exampleFloat forceCluster
     (snd (ParseFile exampleFloat (Scanned withClusterRow False) NewMetricParser))
   = Table withClusterTable"
  by code_simp

text \<open>
  Claim C6. For every aggregate state, the list that \<open>GetSummary\<close> returns does not
  increase in \<open>SizeBytes\<close>, and neither do the rows of the table that
  \<open>PrintSummaryTable\<close> prints from it, with or without the cluster aggregate.
\<close>

theorem rendered_rows_sorted_by_size:
  "sizeNonIncreasing (map SizeBytes (GetSummary mp))
   \<and> (PrintSummaryTable fl opts mp = Table t \<longrightarrow>
        sizeNonIncreasing (map rowSizeBytes (tableRows t)))"
proof
  show g: "sizeNonIncreasing (map SizeBytes (GetSummary mp))"
    by (simp add: GetSummary_def sizeNonIncreasing_sort_Slice)
  show "PrintSummaryTable fl opts mp = Table t \<longrightarrow>
        sizeNonIncreasing (map rowSizeBytes (tableRows t))"
  proof
    assume "PrintSummaryTable fl opts mp = Table t"
    then obtain summaries notice
      where t: "t = printTable fl opts notice (withCluster fl opts mp summaries)"
        and s: "summaries = GetSummary mp \<or> summaries = [clusterSummary fl mp]"
      using PrintSummaryTable_cases by blast
    from s g have "sizeNonIncreasing (map SizeBytes summaries)"
      by (auto simp: sizeNonIncreasing_def)
    then have "sizeNonIncreasing (map SizeBytes (withCluster fl opts mp summaries))"
      by (rule sizeNonIncreasing_withCluster)
    then show "sizeNonIncreasing (map rowSizeBytes (tableRows t))"
      by (simp add: t comp_def)
  qed
qed

theorem rendered_rows_sorted_by_size_witness:
  "PrintSummaryTable exampleFloat forceCluster
     (snd (ParseFile exampleFloat (Scanned withClusterRow False) NewMetricParser))
   = Table withClusterTable
   \<and> map rowSizeBytes (tableRows withClusterTable) = [300, 200, 100]
   \<and> sizeNonIncreasing (map rowSizeBytes (tableRows withClusterTable))"
  using rendered_rows_sorted_by_size
    [of "snd (ParseFile exampleFloat (Scanned withClusterRow False) NewMetricParser)"
        exampleFloat forceCluster withClusterTable]
    withClusterTable_printed
  by (simp add: withClusterTable_def)

text \<open>
  Claim C7. In the table, the object and byte totals of the last row are the sums, in
  \<open>int64\<close>, of \<open>ObjectCount\<close> and \<open>SizeBytes\<close> over the rows printed above it, the
  cluster aggregate among them when it is printed, and the number of buckets it names is
  the number of those rows.
\<close>

theorem totals_row_sums_rendered_rows:
  assumes "PrintSummaryTable fl opts mp = Table t"
  shows "totalObjects t = sum_list (map rowObjectCount (tableRows t))
       \<and> totalBytes t = sum_list (map rowSizeBytes (tableRows t))
       \<and> totalBuckets t = length (tableRows t)"
proof -
  from assms obtain summaries notice
    where t: "t = printTable fl opts notice (withCluster fl opts mp summaries)"
    using PrintSummaryTable_cases by blast
  show ?thesis by (simp add: t comp_def)
qed

theorem totals_row_sums_rendered_rows_witness:
  "PrintSummaryTable exampleFloat forceCluster
     (snd (ParseFile exampleFloat (Scanned withClusterRow False) NewMetricParser))
   = Table withClusterTable
   \<and> totalObjects withClusterTable = 0 + 9 + 5
   \<and> totalBytes withClusterTable = 300 + 200 + 100
   \<and> totalBuckets withClusterTable = 3"
  using totals_row_sums_rendered_rows [OF withClusterTable_printed] withClusterTable_printed
  by (simp add: withClusterTable_def)

section \<open>Versioning status\<close>

text \<open>The sum of the counts under the keys other than the two named ones.\<close>

definition multiCount :: "int64 gomap \<Rightarrow> int64" where
  "multiCount versionDist =
     sum_list (map snd [(key, count) \<leftarrow> versionDist.
                          key \<noteq> ''UNVERSIONED'' \<and> key \<noteq> ''SINGLE_VERSION''])"

lemma totalVersioned_fold:
  "fold (\<lambda>(key, count) total.
           if key \<noteq> ''UNVERSIONED'' \<and> key \<noteq> ''SINGLE_VERSION''
           then total + count else total) versionDist acc
   = acc + multiCount versionDist"
  by (induction versionDist arbitrary: acc) (auto simp: multiCount_def add.assoc)

lemma getVersioningStatus_eq:
  "getVersioningStatus versionDist =
     (if versionDist = [] then ''Unknown''
      else if 0 < sint (getCount versionDist ''UNVERSIONED'')
              \<and> getCount versionDist ''SINGLE_VERSION'' = 0 \<and> multiCount versionDist = 0
           then ''Unversioned''
      else if 0 < sint (getCount versionDist ''SINGLE_VERSION'') \<and> multiCount versionDist = 0
           then ''Single Version''
      else if 0 < sint (multiCount versionDist) then ''Multi-Version''
      else ''Mixed'')"
  unfolding getVersioningStatus_def Let_def totalVersioned_fold
  by (simp add: word_sless_alt)

lemma getVersioningStatus_examples:
  "getVersioningStatus [(''SINGLE_VERSION'', 5)] = ''Single Version''"
  "getVersioningStatus [(''UNVERSIONED'', 3)] = ''Unversioned''"
  "getVersioningStatus [(''SINGLE_VERSION'', 5), (''BETWEEN_2_AND_10'', 1)] = ''Multi-Version''"
  "getVersioningStatus [] = ''Unknown''"
  by code_simp+

text \<open>
  Claim C4 as stated lets any nonzero count decide. The source compares with \<open>> 0\<close>: a
  negative \<open>UNVERSIONED\<close> count, which a metric line with a negative value produces,
  with nothing else in the map gives \<open>Mixed\<close>, not \<open>Unversioned\<close>.
\<close>

theorem getVersioningStatus_negative_count_counterexample:
  "getCount [(''UNVERSIONED'', - 3)] ''UNVERSIONED'' \<noteq> 0
   \<and> getCount [(''UNVERSIONED'', - 3)] ''SINGLE_VERSION'' = 0
   \<and> multiCount [(''UNVERSIONED'', - 3)] = 0
   \<and> getVersioningStatus [(''UNVERSIONED'', - 3)] = ''Mixed''"
  by code_simp

text \<open>
  Claim C4, amended. An empty map gives \<open>Unknown\<close>. Otherwise, with the sum of the counts
  under all other keys taken in \<open>int64\<close>: \<open>Unversioned\<close> when the \<open>UNVERSIONED\<close> count is
  positive and the \<open>SINGLE_VERSION\<close> count and the sum are zero; else \<open>Single Version\<close>
  when the \<open>SINGLE_VERSION\<close> count is positive and the sum is zero; else
  \<open>Multi-Version\<close> when the sum is positive; else \<open>Mixed\<close>. The four examples of the
  claim hold.
\<close>

theorem getVersioningStatus_by_positive_counts:
  "getVersioningStatus versionDist =
     (if versionDist = [] then ''Unknown''
      else if 0 < sint (getCount versionDist ''UNVERSIONED'')
              \<and> getCount versionDist ''SINGLE_VERSION'' = 0 \<and> multiCount versionDist = 0
           then ''Unversioned''
      else if 0 < sint (getCount versionDist ''SINGLE_VERSION'') \<and> multiCount versionDist = 0
           then ''Single Version''
      else if 0 < sint (multiCount versionDist) then ''Multi-Version''
      else ''Mixed'')
   \<and> getVersioningStatus [(''SINGLE_VERSION'', 5)] = ''Single Version''
   \<and> getVersioningStatus [(''UNVERSIONED'', 3)] = ''Unversioned''
   \<and> getVersioningStatus [(''SINGLE_VERSION'', 5), (''BETWEEN_2_AND_10'', 1)] = ''Multi-Version''
   \<and> getVersioningStatus [] = ''Unknown''"
  using getVersioningStatus_eq [of versionDist] getVersioningStatus_examples by blast

theorem getVersioningStatus_by_positive_counts_witness:
  "getVersioningStatus [(''UNVERSIONED'', 1), (''SINGLE_VERSION'', 4)] = ''Single Version''"
proof -
  let ?m = "[(''UNVERSIONED'', 1), (''SINGLE_VERSION'', 4)] :: int64 gomap"
  have "getCount ?m ''UNVERSIONED'' = 1" "getCount ?m ''SINGLE_VERSION'' = 4" "multiCount ?m = 0"
    by code_simp+
  with getVersioningStatus_by_positive_counts [of ?m] show ?thesis by simp
qed

section \<open>Size status\<close>

text \<open>The three groups of size ranges, and the sum of the counts of a group.\<close>

definition smallRanges :: "string list" where
  "smallRanges =
     [''LESS_THAN_1024_B'', ''BETWEEN_1024_B_AND_64_KB'', ''BETWEEN_1024_B_AND_1_MB'',
      ''BETWEEN_1024B_AND_1_MB'', ''BETWEEN_64_KB_AND_256_KB'', ''BETWEEN_256_KB_AND_512_KB'',
      ''BETWEEN_512_KB_AND_1_MB'']"

definition mediumRanges :: "string list" where
  "mediumRanges = [''BETWEEN_1_MB_AND_10_MB'', ''BETWEEN_10_MB_AND_64_MB'']"

definition largeRanges :: "string list" where
  "largeRanges =
     [''BETWEEN_64_MB_AND_128_MB'', ''BETWEEN_128_MB_AND_512_MB'', ''GREATER_THAN_512_MB'']"

definition rangeTotal :: "int64 gomap \<Rightarrow> string list \<Rightarrow> int64" where
  "rangeTotal sizeDist ranges = sum_list (map (getCount sizeDist) ranges)"

text \<open>
  Claim C5 as stated gives \<open>Empty\<close> whenever the grand total is zero. The source tests
  the empty map first: its total is zero and its status is \<open>Unknown\<close>.
\<close>

theorem getSizeStatus_empty_map_counterexample:
  "rangeTotal [] smallRanges + rangeTotal [] mediumRanges + rangeTotal [] largeRanges = 0
   \<and> getSizeStatus exampleFloat [] = ''Unknown''
   \<and> getSizeStatus exampleFloat [] \<noteq> ''Empty''"
  by code_simp

subsection \<open>Rounding to float64 is monotone and keeps integers below \<open>2 ^ 53\<close>\<close>

lemma two_powi_Suc: "(2::rat) powi (m + 1) = 2 * 2 powi m"
  by (rule power_int_add_1') simp

lemma two_powi_pos: "0 < (2::rat) powi m"
  by simp

lemma two_powi_less_cancel:
  assumes "(2::rat) powi a < 2 powi b"
  shows "a < b"
proof (rule ccontr)
  assume "\<not> a < b"
  then have "b \<le> a" by simp
  then have "(2::rat) powi b \<le> 2 powi a" by (rule power_int_increasing) simp
  with assms show False by simp
qed

lemma normUp_bounds:
  "1 \<le> x \<Longrightarrow> 2 powi (normUp x e - e) \<le> x \<and> x < 2 powi (normUp x e - e + 1)"
proof (induction x e rule: normUp.induct)
  case (1 x e)
  show ?case
  proof (cases "x < 2")
    case True
    with "1.prems" show ?thesis by (subst (1 2) normUp.simps) simp
  next
    case False
    define r where "r = normUp (x / 2) (e + 1)"
    from False have "1 \<le> x / 2" by simp
    with "1.IH" False
    have ih: "2 powi (r - (e + 1)) \<le> x / 2 \<and> x / 2 < 2 powi (r - (e + 1) + 1)"
      by (simp add: r_def)
    have r: "normUp x e = r" using False by (subst normUp.simps) (simp add: r_def)
    have "2 powi (r - e) = 2 * (2::rat) powi (r - (e + 1))"
      using two_powi_Suc [of "r - (e + 1)"] by (simp add: algebra_simps)
    moreover have "2 powi (r - e + 1) = 2 * (2::rat) powi (r - (e + 1) + 1)"
      using two_powi_Suc [of "r - (e + 1) + 1"] by (simp add: algebra_simps)
    ultimately show ?thesis using ih unfolding r by simp
  qed
qed

lemma normDown_bounds:
  "0 < x \<Longrightarrow> x < 2 \<Longrightarrow>
   2 powi (normDown x e - e) \<le> x \<and> x < 2 powi (normDown x e - e + 1)"
proof (induction x e rule: normDown.induct)
  case (1 x e)
  show ?case
  proof (cases "1 \<le> x")
    case True
    with "1.prems" show ?thesis by (subst (1 2) normDown.simps) simp
  next
    case False
    define r where "r = normDown (2 * x) (e - 1)"
    from False "1.prems" have c: "\<not> (1 \<le> x \<or> x \<le> 0)" by simp
    from False "1.prems" have "0 < 2 * x" "2 * x < 2" by simp_all
    with "1.IH" c
    have ih: "2 powi (r - (e - 1)) \<le> 2 * x \<and> 2 * x < 2 powi (r - (e - 1) + 1)"
      by (simp add: r_def)
    have r: "normDown x e = r" using c by (subst normDown.simps) (simp add: r_def)
    have "2 powi (r - (e - 1)) = 2 * (2::rat) powi (r - e)"
      using two_powi_Suc [of "r - e"] by (simp add: algebra_simps)
    moreover have "2 powi (r - (e - 1) + 1) = 2 * (2::rat) powi (r - e + 1)"
      using two_powi_Suc [of "r - e + 1"] by (simp add: algebra_simps)
    ultimately show ?thesis using ih unfolding r by simp
  qed
qed

lemma binaryExponent_bounds:
  assumes "0 < x"
  shows "2 powi binaryExponent x \<le> x" and "x < 2 powi (binaryExponent x + 1)"
  using assms normUp_bounds [of x 0] normDown_bounds [of x 0]
  by (auto simp: binaryExponent_def)

lemma binaryExponent_mono:
  assumes "0 < x" and "x \<le> y"
  shows "binaryExponent x \<le> binaryExponent y"
proof (rule ccontr)
  assume "\<not> binaryExponent x \<le> binaryExponent y"
  then have "binaryExponent y + 1 \<le> binaryExponent x" by simp
  then have "(2::rat) powi (binaryExponent y + 1) \<le> 2 powi binaryExponent x"
    by (rule power_int_increasing) simp
  also have "\<dots> \<le> x" using assms(1) by (rule binaryExponent_bounds)
  finally have "y < x"
    using binaryExponent_bounds(2) [of y] assms by auto
  with assms(2) show False by simp
qed

lemma binaryExponent_eqI:
  assumes "2 powi e \<le> x" and "x < 2 powi (e + 1)"
  shows "binaryExponent x = e"
proof -
  have pos: "0 < x" using two_powi_pos [of e] assms(1) by (rule less_le_trans)
  have "(2::rat) powi binaryExponent x < 2 powi (e + 1)"
    using binaryExponent_bounds(1) [OF pos] assms(2) by simp
  then have 1: "binaryExponent x < e + 1" by (rule two_powi_less_cancel)
  have "(2::rat) powi e < 2 powi (binaryExponent x + 1)"
    using binaryExponent_bounds(2) [OF pos] assms(1) by simp
  then have 2: "e < binaryExponent x + 1" by (rule two_powi_less_cancel)
  from 1 2 show ?thesis by simp
qed

lemma roundToEven_of_int [simp]: "roundToEven (of_int k) = k"
  by (simp add: roundToEven_def)

lemma roundToEven_mono:
  assumes "s \<le> t"
  shows "roundToEven s \<le> roundToEven t"
proof (cases "\<lfloor>s\<rfloor> = \<lfloor>t\<rfloor>")
  case True
  with assms show ?thesis by (auto simp: roundToEven_def Let_def)
next
  case False
  with assms have "\<lfloor>s\<rfloor> + 1 \<le> \<lfloor>t\<rfloor>"
    using floor_mono [OF assms] by simp
  moreover have "roundToEven s \<le> \<lfloor>s\<rfloor> + 1" by (simp add: roundToEven_def Let_def)
  moreover have "\<lfloor>t\<rfloor> \<le> roundToEven t" by (simp add: roundToEven_def Let_def)
  ultimately show ?thesis by simp
qed

text \<open>Rounding of a positive number, spelled out.\<close>

lemma float64_round_pos:
  "0 < x \<Longrightarrow> float64_round x = of_int (roundToEven (x / 2 powi (binaryExponent x - 52))) * 2 powi (binaryExponent x - 52)"
  by (simp add: float64_round_def Let_def)

lemma scaled_bounds:
  assumes "0 < x"
  shows "2 ^ 52 \<le> x / 2 powi (binaryExponent x - 52)" and "x / 2 powi (binaryExponent x - 52) < 2 ^ 53"
proof -
  have e: "(2::rat) powi binaryExponent x = 2 powi (binaryExponent x - 52) * 2 ^ 52"
    using power_int_add [of "2::rat" "binaryExponent x - 52" 52] by simp
  have e1: "(2::rat) powi (binaryExponent x + 1) = 2 powi (binaryExponent x - 52) * 2 ^ 53"
    using power_int_add [of "2::rat" "binaryExponent x - 52" 53] by (simp add: add.commute)
  show "2 ^ 52 \<le> x / 2 powi (binaryExponent x - 52)"
    using binaryExponent_bounds(1) [OF assms] by (simp add: e pos_le_divide_eq mult.commute)
  show "x / 2 powi (binaryExponent x - 52) < 2 ^ 53"
    using binaryExponent_bounds(2) [OF assms] by (simp add: e1 pos_divide_less_eq mult.commute)
qed

lemma float64_round_bounds:
  assumes "0 < x"
  shows "2 powi binaryExponent x \<le> float64_round x" and "float64_round x \<le> 2 powi (binaryExponent x + 1)"
proof -
  let ?u = "(2::rat) powi (binaryExponent x - 52)"
  have e: "(2::rat) powi binaryExponent x = 2 ^ 52 * ?u"
    using power_int_add [of "2::rat" "binaryExponent x - 52" 52] by simp
  have e1: "(2::rat) powi (binaryExponent x + 1) = 2 ^ 53 * ?u"
    using power_int_add [of "2::rat" "binaryExponent x - 52" 53] by (simp add: add.commute mult.commute)
  have "roundToEven (of_int (2 ^ 52)) \<le> roundToEven (x / ?u)"
    by (rule roundToEven_mono) (use scaled_bounds(1) [OF assms] in simp)
  then have "(2::int) ^ 52 \<le> roundToEven (x / ?u)"
    by (simp only: roundToEven_of_int)
  then have "(of_int (2 ^ 52) :: rat) \<le> of_int (roundToEven (x / ?u))"
    by (simp only: of_int_le_iff)
  then have lo: "(2::rat) ^ 52 \<le> of_int (roundToEven (x / ?u))"
    by simp
  have "roundToEven (x / ?u) \<le> roundToEven (of_int (2 ^ 53))"
    by (rule roundToEven_mono) (use scaled_bounds(2) [OF assms] in simp)
  then have "roundToEven (x / ?u) \<le> (2::int) ^ 53"
    by (simp only: roundToEven_of_int)
  then have "(of_int (roundToEven (x / ?u)) :: rat) \<le> of_int (2 ^ 53)"
    by (simp only: of_int_le_iff)
  then have hi: "of_int (roundToEven (x / ?u)) \<le> (2::rat) ^ 53"
    by simp
  show "2 powi binaryExponent x \<le> float64_round x"
    unfolding float64_round_pos [OF assms] e using lo two_powi_pos [of "binaryExponent x - 52"]
    by (simp add: mult_right_mono)
  show "float64_round x \<le> 2 powi (binaryExponent x + 1)"
    unfolding float64_round_pos [OF assms] e1 using hi two_powi_pos [of "binaryExponent x - 52"]
    by (simp add: mult_right_mono)
qed

lemma float64_round_mono_pos:
  assumes "0 < x" and "x \<le> y"
  shows "float64_round x \<le> float64_round y"
proof -
  have y: "0 < y" using assms by simp
  show ?thesis
  proof (cases "binaryExponent x = binaryExponent y")
    case True
    let ?u = "(2::rat) powi (binaryExponent y - 52)"
    have "x / ?u \<le> y / ?u" using assms(2) by (simp add: divide_right_mono)
    then have "roundToEven (x / ?u) \<le> roundToEven (y / ?u)" by (rule roundToEven_mono)
    then show ?thesis
      by (simp add: float64_round_pos [OF assms(1)] float64_round_pos [OF y] True mult_right_mono)
  next
    case False
    with binaryExponent_mono [OF assms] have "binaryExponent x + 1 \<le> binaryExponent y" by simp
    then have "(2::rat) powi (binaryExponent x + 1) \<le> 2 powi binaryExponent y"
      by (rule power_int_increasing) simp
    with float64_round_bounds(2) [OF assms(1)] float64_round_bounds(1) [OF y] show ?thesis by simp
  qed
qed

lemma float64_round_mono:
  assumes "0 \<le> x" and "x \<le> y"
  shows "float64_round x \<le> float64_round y"
proof (cases "x = 0")
  case True
  show ?thesis
  proof (cases "y = 0")
    case True
    with \<open>x = 0\<close> show ?thesis by simp
  next
    case False
    with assms True have "0 < y" by simp
    from float64_round_bounds(1) [OF this] have "0 \<le> float64_round y"
      using two_powi_pos [of "binaryExponent y"] by linarith
    with True show ?thesis by (simp add: float64_round_def)
  qed
next
  case False
  with assms show ?thesis by (intro float64_round_mono_pos) simp_all
qed

lemma float64_round_of_int:
  assumes "0 \<le> n" and "n < 2 ^ 53"
  shows "float64_round (of_int n) = of_int n"
proof (cases "n = 0")
  case True
  then show ?thesis by (simp add: float64_round_def)
next
  case False
  with assms have pos: "0 < (of_int n :: rat)" by simp
  let ?e = "binaryExponent (of_int n)"
  have "(2::rat) powi ?e \<le> of_int n" using pos by (rule binaryExponent_bounds)
  also have "(of_int n :: rat) < 2 powi 53" using assms(2) by simp
  finally have "?e < 53" by (rule two_powi_less_cancel)
  define k where "k = nat (52 - ?e)"
  with \<open>?e < 53\<close> have k: "?e - 52 = - int k" by simp
  have u: "(2::rat) powi (?e - 52) = 1 / 2 ^ k"
    unfolding k by (simp add: power_int_minus_divide)
  have "of_int n / (2::rat) powi (?e - 52) = of_int (n * 2 ^ k)"
    by (simp add: u)
  then have "roundToEven (of_int n / (2::rat) powi (?e - 52)) = n * 2 ^ k"
    by (simp only: roundToEven_of_int)
  then show ?thesis
    by (simp add: float64_round_pos [OF pos] u)
qed



lemma float64_round_const:
  "of_int (80::int) \<le> float64_round (float64_round (of_int (4::int) / 5) * 100)"
  "float64_round (float64_round (of_int (4::int) / 5 - 1 / (5 * 2 ^ 50)) * 100) < of_int (80::int)"
  "of_int (60::int) \<le> float64_round (float64_round (of_int (3::int) / 5) * 100)"
  "float64_round (float64_round (of_int (3::int) / 5 - 1 / (5 * 2 ^ 50)) * 100) < of_int (60::int)"
  by code_simp+

text \<open>
  The test for a threshold of \<open>20 * k\<close> percent, \<open>k\<close> being 4 or 3: once the rounded
  quotient of the threshold itself passes and the one of the largest smaller quotient
  fails, the test is exact.
\<close>

lemma pct_exact:
  fixes k :: int
  assumes "0 \<le> s" and "s < 2 ^ 53" and "0 < t" and "t \<le> 2 ^ 50"
      and pass: "of_int c \<le> float64_round (float64_round (of_int k / 5) * 100)"
      and fail: "float64_round (float64_round (of_int k / 5 - 1 / (5 * 2 ^ 50)) * 100) < of_int c"
      and k: "0 \<le> k"
  shows "of_int c \<le> float64_round (float64_round (of_int s / of_int t) * 100)
         \<longleftrightarrow> k * t \<le> 5 * s"
proof -
  let ?r = "of_int s / of_int t :: rat"
  have r0: "0 \<le> ?r" using assms by simp
  have nonneg: "0 \<le> float64_round x * 100" if "0 \<le> x" for x
    using float64_round_mono [OF order_refl that] by (simp add: float64_round_def)
  show ?thesis
  proof (cases "k * t \<le> 5 * s")
    case True
    then have "(of_int (k * t) :: rat) \<le> of_int (5 * s)" by (simp only: of_int_le_iff)
    then have "of_int k / 5 \<le> ?r" using assms(3) by (simp add: field_simps)
    moreover have k0: "(0::rat) \<le> of_int k / 5" using k by simp
    ultimately have "float64_round (of_int k / 5) \<le> float64_round ?r"
      by (intro float64_round_mono)
    then have "float64_round (of_int k / 5) * 100 \<le> float64_round ?r * 100" by simp
    with nonneg [OF k0]
    have "float64_round (float64_round (of_int k / 5) * 100)
            \<le> float64_round (float64_round ?r * 100)"
      by (intro float64_round_mono)
    with pass True show ?thesis by simp
  next
    case False
    then have "5 * s \<le> k * t - 1" by simp
    then have "(of_int (5 * s) :: rat) \<le> of_int (k * t - 1)" by (simp only: of_int_le_iff)
    then have "?r \<le> of_int k / 5 - 1 / (5 * of_int t)" using assms(3) by (simp add: field_simps)
    also have "\<dots> \<le> of_int k / 5 - 1 / (5 * 2 ^ 50)"
    proof -
      have "(of_int t :: rat) \<le> 2 ^ 50" using assms(4) by simp
      then have "1 / (5 * (2::rat) ^ 50) \<le> 1 / (5 * of_int t)"
        using assms(3) by (intro divide_left_mono) simp_all
      then show ?thesis by simp
    qed
    finally have "float64_round ?r \<le> float64_round (of_int k / 5 - 1 / (5 * 2 ^ 50))"
      using r0 by (intro float64_round_mono)
    then have "float64_round ?r * 100
                 \<le> float64_round (of_int k / 5 - 1 / (5 * 2 ^ 50)) * 100"
      by simp
    with nonneg [OF r0]
    have "float64_round (float64_round ?r * 100)
            \<le> float64_round (float64_round (of_int k / 5 - 1 / (5 * 2 ^ 50)) * 100)"
      by (intro float64_round_mono)
    with fail have "float64_round (float64_round ?r * 100) < of_int c" by simp
    with False show ?thesis by simp
  qed
qed

text \<open>Counts for which the percentage test is exact.\<close>

definition exactCounts :: "int64 \<Rightarrow> int64 \<Rightarrow> bool" where
  "exactCounts part tot =
     (0 \<le> sint part \<and> sint part < 2 ^ 53 \<and> 0 \<le> sint tot \<and> sint tot \<le> 2 ^ 50)"

lemma float64_pct_ge_exact:
  assumes "exactCounts part tot" and "tot \<noteq> 0"
  shows "float64_pct_ge part tot 80 \<longleftrightarrow> 80 * sint tot \<le> 100 * sint part"
    and "float64_pct_ge part tot 60 \<longleftrightarrow> 60 * sint tot \<le> 100 * sint part"
proof -
  from assms have d: "0 \<le> sint part" "sint part < 2 ^ 53" "0 < sint tot" "sint tot \<le> 2 ^ 50"
    by (auto simp: exactCounts_def order_less_le signed_eq_0_iff)
  have conv: "float64_round (of_int (sint part)) = of_int (sint part)"
             "float64_round (of_int (sint tot)) = of_int (sint tot)"
    using d by (simp_all add: float64_round_of_int del: of_int_sint)
  have "float64_pct_ge part tot 80
        \<longleftrightarrow> (80::rat) \<le> float64_round
              (float64_round (of_int (sint part) / of_int (sint tot)) * 100)"
    using assms(2) by (simp add: float64_pct_ge_def conv del: of_int_sint)
  also have "\<dots> \<longleftrightarrow> 4 * sint tot \<le> 5 * sint part"
    using pct_exact [OF d float64_round_const(1,2)] by simp
  finally show "float64_pct_ge part tot 80 \<longleftrightarrow> 80 * sint tot \<le> 100 * sint part"
    by simp
  have "float64_pct_ge part tot 60
        \<longleftrightarrow> (60::rat) \<le> float64_round
              (float64_round (of_int (sint part) / of_int (sint tot)) * 100)"
    using assms(2) by (simp add: float64_pct_ge_def conv del: of_int_sint)
  also have "\<dots> \<longleftrightarrow> 3 * sint tot \<le> 5 * sint part"
    using pct_exact [OF d float64_round_const(3,4)] by simp
  finally show "float64_pct_ge part tot 60 \<longleftrightarrow> 60 * sint tot \<le> 100 * sint part"
    by simp
qed

text \<open>A size distribution of ten objects, seven of them of medium size.\<close>

definition mostlyMedium :: "int64 gomap" where
  "mostlyMedium =
     [(''LESS_THAN_1024_B'', 1), (''BETWEEN_1_MB_AND_10_MB'', 7), (''GREATER_THAN_512_MB'', 2)]"

text \<open>
  Claim C5, amended. An empty map gives \<open>Unknown\<close>. For any other map the counts are
  summed over the small ranges (all below 1 MB), the medium ranges (1 MB to 10 MB and
  10 MB to 64 MB) and the large ranges (64 MB and above); a zero grand total gives
  \<open>Empty\<close>; else \<open>Mostly Small\<close> when small is at least 80 percent of the total; else
  \<open>Mostly Medium\<close> when medium is at least 60 percent; else \<open>Mostly Large\<close> when large is
  at least 60 percent; else \<open>Mixed Sizes\<close>. The percentages are those of the source,
  \<open>float64(part) / float64(total) * 100\<close> in IEEE 754 binary64, and they compare with 80
  and 60 as the exact ones do (\<open>100 * part \<ge> 80 * total\<close>) whenever the three sums
  are not negative and below \<open>2 ^ 53\<close> and the total is not negative and at most \<open>2 ^ 50\<close>.
\<close>

theorem getSizeStatus_by_partition:
  assumes "pct_ge fl = float64_pct_ge"
  shows
    "(let small = rangeTotal sizeDist smallRanges;
          medium = rangeTotal sizeDist mediumRanges;
          large = rangeTotal sizeDist largeRanges;
          total = small + medium + large
      in getSizeStatus fl sizeDist =
           (if sizeDist = [] then ''Unknown''
            else if total = 0 then ''Empty''
            else if float64_pct_ge small total 80 then ''Mostly Small''
            else if float64_pct_ge medium total 60 then ''Mostly Medium''
            else if float64_pct_ge large total 60 then ''Mostly Large''
            else ''Mixed Sizes'')
         \<and> (sizeDist \<noteq> [] \<and> exactCounts small total \<and> exactCounts medium total
              \<and> exactCounts large total \<longrightarrow>
            getSizeStatus fl sizeDist =
              (if sint total = 0 then ''Empty''
               else if 80 * sint total \<le> 100 * sint small then ''Mostly Small''
               else if 60 * sint total \<le> 100 * sint medium then ''Mostly Medium''
               else if 60 * sint total \<le> 100 * sint large then ''Mostly Large''
               else ''Mixed Sizes'')))"
proof -
  define small medium large tot
    where "small = rangeTotal sizeDist smallRanges"
      and "medium = rangeTotal sizeDist mediumRanges"
      and "large = rangeTotal sizeDist largeRanges"
      and "tot = small + medium + large"
  have float: "getSizeStatus fl sizeDist =
           (if sizeDist = [] then ''Unknown''
            else if tot = 0 then ''Empty''
            else if float64_pct_ge small tot 80 then ''Mostly Small''
            else if float64_pct_ge medium tot 60 then ''Mostly Medium''
            else if float64_pct_ge large tot 60 then ''Mostly Large''
            else ''Mixed Sizes'')"
    by (simp add: getSizeStatus_def Let_def rangeTotal_def smallRanges_def mediumRanges_def
          largeRanges_def add.assoc assms small_def medium_def large_def tot_def)
  have exact: "getSizeStatus fl sizeDist =
              (if sint tot = 0 then ''Empty''
               else if 80 * sint tot \<le> 100 * sint small then ''Mostly Small''
               else if 60 * sint tot \<le> 100 * sint medium then ''Mostly Medium''
               else if 60 * sint tot \<le> 100 * sint large then ''Mostly Large''
               else ''Mixed Sizes'')"
    if "sizeDist \<noteq> []" "exactCounts small tot" "exactCounts medium tot"
       "exactCounts large tot"
  proof (cases "tot = 0")
    case True
    with that float show ?thesis by simp
  next
    case False
    then have "sint tot \<noteq> 0" by (simp add: signed_eq_0_iff)
    with that float False show ?thesis
      by (simp add: float64_pct_ge_exact)
  qed
  show ?thesis
    unfolding Let_def small_def [symmetric] medium_def [symmetric] large_def [symmetric]
      tot_def [symmetric]
    using float exact by blast
qed

theorem getSizeStatus_by_partition_witness:
  "pct_ge exampleFloat = float64_pct_ge
   \<and> mostlyMedium \<noteq> []
   \<and> exactCounts 1 (1 + 7 + 2) \<and> exactCounts 7 (1 + 7 + 2) \<and> exactCounts 2 (1 + 7 + 2)
   \<and> getSizeStatus exampleFloat mostlyMedium = ''Mostly Medium''"
proof -
  have fl: "pct_ge exampleFloat = float64_pct_ge" by (simp add: exampleFloat_def)
  have sums: "rangeTotal mostlyMedium smallRanges = 1" "rangeTotal mostlyMedium mediumRanges = 7"
    "rangeTotal mostlyMedium largeRanges = 2"
    by code_simp+
  have ex: "exactCounts 1 (1 + 7 + 2)" "exactCounts 7 (1 + 7 + 2)" "exactCounts 2 (1 + 7 + 2)"
    by (simp_all add: exactCounts_def)
  have ne: "mostlyMedium \<noteq> []" by (simp add: mostlyMedium_def)
  note t = getSizeStatus_by_partition [OF fl, of mostlyMedium, unfolded Let_def sums]
  from t ex ne have "getSizeStatus exampleFloat mostlyMedium =
      (if sint (1 + 7 + 2 :: int64) = 0 then ''Empty''
       else if 80 * sint (1 + 7 + 2 :: int64) \<le> 100 * sint (1 :: int64) then ''Mostly Small''
       else if 60 * sint (1 + 7 + 2 :: int64) \<le> 100 * sint (7 :: int64) then ''Mostly Medium''
       else if 60 * sint (1 + 7 + 2 :: int64) \<le> 100 * sint (2 :: int64) then ''Mostly Large''
       else ''Mixed Sizes'')"
    by blast
  then have "getSizeStatus exampleFloat mostlyMedium = ''Mostly Medium''" by simp
  with fl ne ex show ?thesis by blast
qed

text \<open>
  Beyond that range the two tests differ: of \<open>5 * 2 ^ 51\<close> objects, \<open>2 ^ 53 - 1\<close> small ones
  are less than 80 percent, and the quotient rounds to a number whose hundredfold rounds
  to 80.
\<close>

lemma float64_pct_ge_not_exact:
  "float64_pct_ge 9007199254740991 11258999068426240 80
   \<and> \<not> (80 * sint (11258999068426240 :: int64) \<le> 100 * sint (9007199254740991 :: int64))"
  by code_simp

lemma getSizeStatus_negative_counts:
  "getSizeStatus exampleFloat [(''LESS_THAN_1024_B'', - 8), (''BETWEEN_1_MB_AND_10_MB'', - 2)]
     = ''Mostly Small''"
  by code_simp

section \<open>The cluster fallback\<close>

text \<open>What a line adds to the two cluster totals.\<close>

definition clusterObjectValue :: "go_float \<Rightarrow> string \<Rightarrow> int64" where
  "clusterObjectValue fl line =
     (if \<not> skipped line \<and> extractBucketName line = []
         \<and> Contains line ''minio_cluster_usage_object_total''
      then extractValue fl line else 0)"

definition clusterBytesValue :: "go_float \<Rightarrow> string \<Rightarrow> int64" where
  "clusterBytesValue fl line =
     (if \<not> skipped line \<and> extractBucketName line = []
         \<and> \<not> Contains line ''minio_cluster_usage_object_total''
         \<and> Contains line ''minio_cluster_usage_total_bytes''
      then extractValue fl line else 0)"

lemma cluster_totals_parseBucketLine [simp]:
  "ClusterObjects (parseBucketLine fl k line mp) = ClusterObjects mp"
  "ClusterBytes (parseBucketLine fl k line mp) = ClusterBytes mp"
  by (simp_all add: parseBucketLine_def Let_def)

lemma ClusterObjects_parseLine:
  "ClusterObjects (parseLine fl raw mp) =
     ClusterObjects mp + clusterObjectValue fl (TrimSpace raw)"
  by (simp add: parseLine_def Let_def clusterObjectValue_def parseClusterLine_def)

lemma ClusterBytes_parseLine:
  "ClusterBytes (parseLine fl raw mp) =
     ClusterBytes mp + clusterBytesValue fl (TrimSpace raw)"
  by (simp add: parseLine_def Let_def clusterBytesValue_def parseClusterLine_def)

lemma ClusterObjects_fold:
  "ClusterObjects (fold (parseLine fl) lines mp) =
     ClusterObjects mp + sum_list (map (\<lambda>raw. clusterObjectValue fl (TrimSpace raw)) lines)"
  by (induction lines arbitrary: mp) (simp_all add: ClusterObjects_parseLine add.assoc)

lemma ClusterBytes_fold:
  "ClusterBytes (fold (parseLine fl) lines mp) =
     ClusterBytes mp + sum_list (map (\<lambda>raw. clusterBytesValue fl (TrimSpace raw)) lines)"
  by (induction lines arbitrary: mp) (simp_all add: ClusterBytes_parseLine add.assoc)

text \<open>No line that is used carries a bucket label.\<close>

definition noBucketLabel :: "string list \<Rightarrow> bool" where
  "noBucketLabel lines =
     (\<forall>raw \<in> set lines. \<not> skipped (TrimSpace raw) \<longrightarrow> extractBucketName (TrimSpace raw) = [])"

lemma buckets_fold_noBucketLabel:
  "noBucketLabel lines \<Longrightarrow> buckets (fold (parseLine fl) lines mp) = buckets mp"
  by (induction lines arbitrary: mp) (simp_all add: noBucketLabel_def parseLine_def Let_def)

lemma sum_clusterObjectValue:
  "noBucketLabel lines \<Longrightarrow>
   sum_list (map (\<lambda>raw. clusterObjectValue fl (TrimSpace raw)) lines) =
   sum_list (map (extractValue fl)
     [line \<leftarrow> map TrimSpace lines.
        \<not> skipped line \<and> Contains line ''minio_cluster_usage_object_total''])"
  by (induction lines) (auto simp: noBucketLabel_def clusterObjectValue_def)

lemma sum_clusterBytesValue:
  "noBucketLabel lines \<Longrightarrow>
   sum_list (map (\<lambda>raw. clusterBytesValue fl (TrimSpace raw)) lines) =
   sum_list (map (extractValue fl)
     [line \<leftarrow> map TrimSpace lines.
        \<not> skipped line \<and> \<not> Contains line ''minio_cluster_usage_object_total''
        \<and> Contains line ''minio_cluster_usage_total_bytes''])"
  by (induction lines) (auto simp: noBucketLabel_def clusterBytesValue_def)

lemma sort_Slice_Nil [simp]: "sort_Slice lt [] = []"
  by (simp add: sort_Slice_def)

lemma withCluster_single:
  "withCluster fl opts mp [clusterSummary fl mp] = [clusterSummary fl mp]"
  by (simp add: withCluster_def clusterSummary_def)

lemma printRow_clusterSummary:
  "printRow fl opts (clusterSummary fl mp) =
     \<lparr>rowName = ''<cluster-aggregate>'', rowObjectCount = ClusterObjects mp,
      rowSizeBytes = ClusterBytes mp, rowSizeHuman = formatBytes fl (ClusterBytes mp),
      rowVersioning = (if ShowVersions opts
                       then Some (getVersioningStatus (ClusterVersionDist mp)) else None),
      rowSizeDist = (if ShowSizes opts
                     then Some (getSizeStatus fl (ClusterSizeDist mp)) else None)\<rparr>"
  by (simp add: printRow_def clusterSummary_def)

lemma PrintSummaryTable_cluster_only:
  assumes "buckets mp = []" and "0 <s ClusterObjects mp"
  shows "PrintSummaryTable fl opts mp = Table (printTable fl opts True [clusterSummary fl mp])"
  using assms
  by (simp add: PrintSummaryTable_def GetSummary_def hasClusterData_def withCluster_single)

lemma noBucketLabel_clusterOnly: "noBucketLabel clusterOnly"
  unfolding noBucketLabel_def by code_simp

lemma sums_clusterOnly:
  "sum_list (map (extractValue exampleFloat)
     [line \<leftarrow> map TrimSpace clusterOnly.
        \<not> skipped line \<and> Contains line ''minio_cluster_usage_object_total'']) = 12345"
  "sum_list (map (extractValue exampleFloat)
     [line \<leftarrow> map TrimSpace clusterOnly.
        \<not> skipped line \<and> \<not> Contains line ''minio_cluster_usage_object_total''
        \<and> Contains line ''minio_cluster_usage_total_bytes'']) = 567000000"
  by code_simp+

text \<open>
  The assertions of \<open>TestParseClusterMetrics\<close> hold of the model: the two totals, and
  the keys of the distributions after normalization.
\<close>

lemma TestParseClusterMetrics:
  "ParseFile exampleFloat (Scanned clusterOnly False) NewMetricParser =
     (None,
      \<lparr>buckets = [], ClusterObjects = 12345, ClusterBytes = 567000000,
       ClusterVersionDist = [(''SINGLE_VERSION'', 300)],
       ClusterSizeDist = [(''BETWEEN_1024_B_AND_1_MB'', 100), (''BETWEEN_1024_B_AND_64_KB'', 200)]\<rparr>)"
  by code_simp

text \<open>A line that the loop classifies as a cluster distribution line.\<close>

definition clusterDistLine :: "string \<Rightarrow> bool" where
  "clusterDistLine line =
     (\<not> Contains line ''minio_cluster_usage_object_total''
      \<and> \<not> Contains line ''minio_cluster_usage_total_bytes''
      \<and> (Contains line ''minio_cluster_objects_version_distribution''
         \<or> Contains line ''minio_cluster_objects_size_distribution''))"

lemma addCount_nonempty [simp]: "addCount m k v \<noteq> []"
  by (simp add: addCount_def)

text \<open>Some cluster distribution holds a range key.\<close>

definition hasClusterDist :: "MetricParser \<Rightarrow> bool" where
  "hasClusterDist mp = (ClusterVersionDist mp \<noteq> [] \<or> ClusterSizeDist mp \<noteq> [])"

lemma hasClusterDist_parseLine:
  assumes "skipped (TrimSpace raw) \<or> extractBucketName (TrimSpace raw) = []"
  shows "hasClusterDist (parseLine fl raw mp) \<longleftrightarrow>
           hasClusterDist mp
           \<or> (\<not> skipped (TrimSpace raw) \<and> clusterDistLine (TrimSpace raw)
              \<and> extractRange (TrimSpace raw) \<noteq> [])"
  using assms
  by (auto simp: hasClusterDist_def parseLine_def parseClusterLine_def Let_def clusterDistLine_def)

lemma hasClusterDist_fold:
  "noBucketLabel lines \<Longrightarrow>
   hasClusterDist (fold (parseLine fl) lines mp) \<longleftrightarrow>
     hasClusterDist mp
     \<or> list_ex (\<lambda>line. clusterDistLine line \<and> extractRange line \<noteq> [])
          [line \<leftarrow> map TrimSpace lines. \<not> skipped line]"
proof (induction lines arbitrary: mp)
  case Nil
  show ?case by simp
next
  case (Cons raw lines)
  from Cons.prems have 1: "skipped (TrimSpace raw) \<or> extractBucketName (TrimSpace raw) = []"
    and 2: "noBucketLabel lines"
    by (auto simp: noBucketLabel_def)
  show ?case
    using Cons.IH [OF 2, of "parseLine fl raw mp"] hasClusterDist_parseLine [OF 1, of fl mp]
    by auto
qed

lemma hasClusterData_iff:
  "hasClusterData mp \<longleftrightarrow> 0 <s ClusterObjects mp \<or> 0 <s ClusterBytes mp \<or> hasClusterDist mp"
  by (auto simp: hasClusterData_def hasClusterDist_def)

lemma PrintSummaryTable_no_buckets:
  assumes "buckets mp = []"
  shows "PrintSummaryTable fl opts mp =
           (if hasClusterData mp then Table (printTable fl opts True [clusterSummary fl mp])
            else NoBucketDataFound)"
  using assms
  by (simp add: PrintSummaryTable_def GetSummary_def withCluster_single)

text \<open>
  Claim C8 as the specification has it ends: the report is never empty when only cluster
  families were used. It can be empty: with an object total and a byte total of zero and
  no distribution line, the test \<open>mp.ClusterObjects > 0 || mp.ClusterBytes > 0 || ...\<close> fails and
  \<open>PrintSummaryTable\<close> prints the no-data message.
\<close>

theorem cluster_only_zero_totals_counterexample:
  "noBucketLabel clusterZero
   \<and> [line \<leftarrow> map TrimSpace clusterZero. \<not> skipped line \<and> Contains line ''minio_cluster_usage_''] \<noteq> []
   \<and> PrintSummaryTable exampleFloat plainOptions
       (snd (ParseFile exampleFloat (Scanned clusterZero False) NewMetricParser)) = NoBucketDataFound"
proof -
  have "noBucketLabel clusterZero" unfolding noBucketLabel_def by code_simp
  moreover have "[line \<leftarrow> map TrimSpace clusterZero. \<not> skipped line \<and> Contains line ''minio_cluster_usage_''] \<noteq> []"
    by code_simp
  moreover have "PrintSummaryTable exampleFloat plainOptions
       (snd (ParseFile exampleFloat (Scanned clusterZero False) NewMetricParser)) = NoBucketDataFound"
    by code_simp
  ultimately show ?thesis by blast
qed

text \<open>
  Claim C8, amended. Let no metric line of the input carry a bucket label. Let the object
  total be the \<open>int64\<close> sum of the values of the lines containing
  \<open>minio_cluster_usage_object_total\<close>, the byte total that of the lines the loop takes as
  byte totals (containing \<open>minio_cluster_usage_total_bytes\<close> and not the former name), and
  call the input ranged when one of its lines is a cluster distribution line with a range
  label. If the object total or the byte total is positive, or the input is ranged, then,
  whatever the options, \<open>PrintSummaryTable\<close> prints a table with exactly one row, named
  \<open><cluster-aggregate>\<close>, whose object count and size are the two totals; otherwise it
  prints the no-data message. In particular, totals of 12345 and 567000000 (the value of
  \<open>5.67e+08\<close>) give one row with these two numbers.
\<close>

theorem cluster_only_input_gives_one_aggregate_row:
  assumes "noBucketLabel lines"
  shows "(let used = [line \<leftarrow> map TrimSpace lines. \<not> skipped line];
              objectTotal = sum_list (map (extractValue fl)
                 [line \<leftarrow> used. Contains line ''minio_cluster_usage_object_total'']);
              byteTotal = sum_list (map (extractValue fl)
                 [line \<leftarrow> used. \<not> Contains line ''minio_cluster_usage_object_total''
                                \<and> Contains line ''minio_cluster_usage_total_bytes'']);
              ranged = list_ex (\<lambda>line. clusterDistLine line \<and> extractRange line \<noteq> []) used;
              out = PrintSummaryTable fl opts
                      (snd (ParseFile fl (Scanned lines failed) NewMetricParser))
          in (if 0 <s objectTotal \<or> 0 <s byteTotal \<or> ranged
              then \<exists>t row. out = Table t \<and> tableRows t = [row]
                     \<and> rowName row = ''<cluster-aggregate>''
                     \<and> rowObjectCount row = objectTotal \<and> rowSizeBytes row = byteTotal
              else out = NoBucketDataFound)
             \<and> (objectTotal = 12345 \<and> byteTotal = 567000000 \<longrightarrow>
                  (\<exists>t row. out = Table t \<and> tableRows t = [row]
                     \<and> rowName row = ''<cluster-aggregate>''
                     \<and> rowObjectCount row = 12345 \<and> rowSizeBytes row = 567000000)))"
proof -
  define used where "used = [line \<leftarrow> map TrimSpace lines. \<not> skipped line]"
  define objectTotal where "objectTotal = sum_list (map (extractValue fl)
     [line \<leftarrow> used. Contains line ''minio_cluster_usage_object_total''])"
  define byteTotal where "byteTotal = sum_list (map (extractValue fl)
     [line \<leftarrow> used. \<not> Contains line ''minio_cluster_usage_object_total''
                    \<and> Contains line ''minio_cluster_usage_total_bytes''])"
  define ranged where
    "ranged = list_ex (\<lambda>line. clusterDistLine line \<and> extractRange line \<noteq> []) used"
  define mp where "mp = snd (ParseFile fl (Scanned lines failed) NewMetricParser)"
  then have mp: "mp = fold (parseLine fl) lines NewMetricParser"
    by (simp add: ParseFile_def)
  have b: "buckets mp = []"
    by (simp add: mp buckets_fold_noBucketLabel [OF assms] NewMetricParser_def)
  have o: "ClusterObjects mp = objectTotal"
    by (simp add: mp ClusterObjects_fold sum_clusterObjectValue [OF assms] NewMetricParser_def
          objectTotal_def used_def)
  have s: "ClusterBytes mp = byteTotal"
    by (simp add: mp ClusterBytes_fold sum_clusterBytesValue [OF assms] NewMetricParser_def
          byteTotal_def used_def)
  have d: "hasClusterDist mp = ranged"
    by (simp add: mp hasClusterDist_fold [OF assms] ranged_def used_def)
       (simp add: hasClusterDist_def NewMetricParser_def)
  have h: "hasClusterData mp \<longleftrightarrow> 0 <s objectTotal \<or> 0 <s byteTotal \<or> ranged"
    by (simp add: hasClusterData_iff o s d)
  have out: "PrintSummaryTable fl opts mp =
              (if 0 <s objectTotal \<or> 0 <s byteTotal \<or> ranged
               then Table (printTable fl opts True [clusterSummary fl mp])
               else NoBucketDataFound)"
    by (simp only: PrintSummaryTable_no_buckets [OF b] h)
  have rows: "tableRows (printTable fl opts True [clusterSummary fl mp])
                = [printRow fl opts (clusterSummary fl mp)]"
    by (simp add: printTable_def printRows_def)
  have row: "rowName (printRow fl opts (clusterSummary fl mp)) = ''<cluster-aggregate>''"
    "rowObjectCount (printRow fl opts (clusterSummary fl mp)) = objectTotal"
    "rowSizeBytes (printRow fl opts (clusterSummary fl mp)) = byteTotal"
    by (simp_all add: printRow_clusterSummary o s)
  have 1: "if 0 <s objectTotal \<or> 0 <s byteTotal \<or> ranged
           then \<exists>t row. PrintSummaryTable fl opts mp = Table t \<and> tableRows t = [row]
                  \<and> rowName row = ''<cluster-aggregate>''
                  \<and> rowObjectCount row = objectTotal \<and> rowSizeBytes row = byteTotal
           else PrintSummaryTable fl opts mp = NoBucketDataFound"
    using rows row by (simp add: out)
  have 2: "\<exists>t row. PrintSummaryTable fl opts mp = Table t \<and> tableRows t = [row]
                  \<and> rowName row = ''<cluster-aggregate>''
                  \<and> rowObjectCount row = 12345 \<and> rowSizeBytes row = 567000000"
    if "objectTotal = 12345" "byteTotal = 567000000"
  proof -
    have "0 <s objectTotal" by (simp add: that word_sless_alt)
    with 1 that show ?thesis by simp
  qed
  from 1 2 show ?thesis
    unfolding Let_def used_def [symmetric] objectTotal_def [symmetric] byteTotal_def [symmetric]
      ranged_def [symmetric] mp_def [symmetric]
    by blast
qed

theorem cluster_only_input_gives_one_aggregate_row_witness:
  "noBucketLabel clusterOnly
   \<and> (\<exists>t row. PrintSummaryTable exampleFloat plainOptions
                 (snd (ParseFile exampleFloat (Scanned clusterOnly False) NewMetricParser)) = Table t
          \<and> tableRows t = [row]
          \<and> rowName row = ''<cluster-aggregate>''
          \<and> rowObjectCount row = 12345
          \<and> rowSizeBytes row = 567000000)"
proof -
  have u: "[line \<leftarrow> [line \<leftarrow> map TrimSpace clusterOnly. \<not> skipped line]. P line]
            = [line \<leftarrow> map TrimSpace clusterOnly. \<not> skipped line \<and> P line]" for P
    by (simp add: conj_commute)
  note t = cluster_only_input_gives_one_aggregate_row
    [OF noBucketLabel_clusterOnly, of exampleFloat plainOptions False,
     unfolded Let_def u sums_clusterOnly]
  from t noBucketLabel_clusterOnly show ?thesis by simp
qed

section \<open>Lines with a value that does not parse\<close>

text \<open>
  The counters of a bucket or of the cluster aggregate: the object count, the size, and
  the counts of the two distributions read by key. A bucket that the map does not have,
  and a key that a distribution does not have, read as zero.
\<close>

type_synonym counters = "int64 \<times> int64 \<times> (string \<Rightarrow> int64) \<times> (string \<Rightarrow> int64)"

definition countersOf :: "BucketSummary \<Rightarrow> counters" where
  "countersOf bucket =
     (ObjectCount bucket, SizeBytes bucket,
      getCount (VersionDistribution bucket), getCount (SizeDistribution bucket))"








lemma getCount_Nil [simp]: "getCount [] = (\<lambda>key. 0)"
  by (rule ext) (simp add: getCount_def)

lemma countersOf_addServer [simp]: "countersOf (addServer bucket s) = countersOf bucket"
  by (simp add: countersOf_def addServer_def)


















subsection \<open>Files as lists of lines\<close>

text \<open>
  The file whose lines are \<open>ls\<close>, each ended by a line feed, and a line that fits the
  buffer of the scanner.
\<close>

definition joinLines :: "string list \<Rightarrow> string" where
  "joinLines ls = concat (map (\<lambda>l. l @ [LF]) ls)"

definition shortLine :: "string \<Rightarrow> bool" where
  "shortLine l = (int (length l) < MaxScanTokenSize)"

lemma Scan_Nil: "Scan [] = ([], False)"
  by (simp add: Scan.simps)

lemma Scan_line:
  assumes "LF \<notin> set l"
  shows "Scan (l @ LF # data) =
           (if shortLine l then (case Scan data of (tokens, tooLong) \<Rightarrow> (dropCR l # tokens, tooLong))
            else ([], True))"
proof -
  have t: "takeWhile (\<lambda>c. c \<noteq> LF) (l @ LF # data) = l"
    using assms by (auto simp: takeWhile_tail)
  have d: "dropWhile (\<lambda>c. c \<noteq> LF) (l @ LF # data) = LF # data"
    using assms by (auto simp: dropWhile_append3)
  show ?thesis
    by (subst Scan.simps) (simp add: t d shortLine_def Let_def)
qed

lemma Scan_joinLines:
  "\<forall>l \<in> set ls. LF \<notin> set l \<Longrightarrow>
   Scan (joinLines ls) = (map dropCR (takeWhile shortLine ls), \<not> list_all shortLine ls)"
proof (induction ls)
  case Nil
  show ?case by (simp add: joinLines_def Scan_Nil)
next
  case (Cons l ls)
  then have l: "LF \<notin> set l" and ls: "\<forall>l \<in> set ls. LF \<notin> set l" by simp_all
  have "joinLines (l # ls) = l @ LF # joinLines ls" by (simp add: joinLines_def)
  then show ?case by (simp add: Scan_line [OF l] Cons.IH [OF ls])
qed

lemma ParseFile_joinLines:
  "\<forall>l \<in> set ls. LF \<notin> set l \<Longrightarrow>
   ParseFile fl (scanFile (joinLines ls)) mp =
     (if list_all shortLine ls then None else Some ErrScan,
      fold (parseLine fl) (map dropCR (takeWhile shortLine ls)) mp)"
  by (simp add: ParseFile_def scanFile_def Scan_joinLines)

subsection \<open>The state without the server lists\<close>

text \<open>
  \<open>addServer\<close> alone reads and writes the field \<open>Servers\<close>; \<open>GetSummary\<close>, the two printing
  functions and the status functions do not. The state is compared with the server lists
  emptied.
\<close>

definition noServers :: "BucketSummary \<Rightarrow> BucketSummary" where
  "noServers bucket = bucket\<lparr>Servers := []\<rparr>"

definition withoutServers :: "MetricParser \<Rightarrow> MetricParser" where
  "withoutServers mp = mp\<lparr>buckets := map (\<lambda>(k, bucket). (k, noServers bucket)) (buckets mp)\<rparr>"





lemma noServers_fields [simp]:
  "Name (noServers b) = Name b"
  "Servers (noServers b) = []"
  "ObjectCount (noServers b) = ObjectCount b"
  "SizeBytes (noServers b) = SizeBytes b"
  "SizeHuman (noServers b) = SizeHuman b"
  "VersionDistribution (noServers b) = VersionDistribution b"
  "SizeDistribution (noServers b) = SizeDistribution b"
  by (simp_all add: noServers_def)


lemma addServer_fields [simp]:
  "SizeBytes (addServer b s) = SizeBytes b"
  "SizeHuman (addServer b s) = SizeHuman b"
  "VersionDistribution (addServer b s) = VersionDistribution b"
  "SizeDistribution (addServer b s) = SizeDistribution b"
  by (simp_all add: addServer_def)


lemma noServers_idem [simp]: "noServers (noServers b) = noServers b"
  by (simp add: noServers_def)

lemma noServers_newBucket [simp]: "noServers (newBucket k) = newBucket k"
  by (simp add: noServers_def newBucket_def)



lemma noServers_map_idem:
  "map (\<lambda>(k, bucket). (k, noServers bucket)) (map (\<lambda>(k, bucket). (k, noServers bucket)) al) =
     map (\<lambda>(k, bucket). (k, noServers bucket)) al"
  by (induction al) auto

lemma withoutServers_idem [simp]: "withoutServers (withoutServers mp) = withoutServers mp"
  by (simp add: withoutServers_def noServers_map_idem del: map_map)

lemma withoutServers_cluster [simp]:
  "ClusterObjects (withoutServers mp) = ClusterObjects mp"
  "ClusterBytes (withoutServers mp) = ClusterBytes mp"
  "ClusterVersionDist (withoutServers mp) = ClusterVersionDist mp"
  "ClusterSizeDist (withoutServers mp) = ClusterSizeDist mp"
  by (simp_all add: withoutServers_def)







subsection \<open>The table does not read the server lists\<close>







lemma printRow_noServers [simp]: "printRow fl opts (noServers b) = printRow fl opts b"
  by (simp add: printRow_def)


lemma hasClusterData_withoutServers [simp]:
  "hasClusterData (withoutServers mp) = hasClusterData mp"
  by (simp add: hasClusterData_def)

lemma clusterSummary_withoutServers [simp]:
  "clusterSummary fl (withoutServers mp) = clusterSummary fl mp"
  by (simp add: clusterSummary_def)

lemma noServers_clusterSummary [simp]:
  "noServers (clusterSummary fl mp) = clusterSummary fl mp"
  by (simp add: clusterSummary_def noServers_def)





subsection \<open>A line that adds nothing to the state it meets\<close>












lemma long_line_aborts:
  assumes "\<forall>l \<in> set (before @ raw # after). LF \<notin> set l" and "\<not> shortLine raw"
  shows "fst (ParseFile fl (scanFile (joinLines (before @ raw # after))) mp) = Some ErrScan"
  using assms(2) by (simp add: ParseFile_joinLines [OF assms(1)])



lemma logsBadValue_servers:
  "snd (ParseFile exampleFloat
     (scanFile (joinLines ([logsObjects] @ logsBadValue # [logsBytes]))) NewMetricParser)
   \<noteq> snd (ParseFile exampleFloat
     (scanFile (joinLines ([logsObjects] @ [logsBytes]))) NewMetricParser)"
  by code_simp

end
